theory Spec2Isabelle
  imports Main
begin

section \<open>Python values: strings, errors, integers\<close>

text \<open>
  A Python \<open>str\<close> is a sequence of Unicode code points; it is modelled as a list of
  natural numbers.  \<open>ustr_of\<close> turns an ASCII literal into such a list.
\<close>

type_synonym ustr = "nat list"

definition ustr_of :: "string \<Rightarrow> ustr" where
  "ustr_of = map of_char"

text \<open>The exceptions that the modelled code can raise.  \<open>NetworkError\<close> and
  \<open>NotFoundError\<close> are subclasses of \<open>APIError\<close> in \<open>bangumi_api.py\<close>;
  \<open>RegexError\<close> stands for \<open>re.error\<close>.\<close>

datatype error =
    IndexError | ValueError | TypeError | AttributeError | KeyError | RegexError
  | APIError | NetworkError | NotFoundError
  | Unsupported
      \<comment> \<open>no Python exception: a pattern text that \<open>known_patterns\<close> below does not list\<close>

definition is_APIError :: "error \<Rightarrow> bool" where
  "is_APIError e = (e = APIError \<or> e = NetworkError \<or> e = NotFoundError)"

definition ebind :: "error + 'a \<Rightarrow> ('a \<Rightarrow> error + 'b) \<Rightarrow> error + 'b" where
  "ebind m f = (case m of Inl e \<Rightarrow> Inl e | Inr x \<Rightarrow> f x)"

text \<open>\<open>str.isspace\<close> / the class \<open>\s\<close> of a Unicode pattern (Unicode 14).\<close>

definition is_space :: "nat \<Rightarrow> bool" where
  "is_space c = ((9 \<le> c \<and> c \<le> 13) \<or> (28 \<le> c \<and> c \<le> 32) \<or> c = 133 \<or> c = 160
      \<or> c = 5760 \<or> (8192 \<le> c \<and> c \<le> 8202) \<or> c = 8232 \<or> c = 8233 \<or> c = 8239
      \<or> c = 8287 \<or> c = 12288)"

text \<open>The decimal digits (category Nd, Unicode 14) come in runs of ten; \<open>nd_zeros\<close>
  lists the code point of the zero of each run.  \<open>dec_value\<close> is the digit's value.\<close>

definition nd_zeros :: "nat list" where
  "nd_zeros = [48, 1632, 1776, 1984, 2406, 2534, 2662, 2790, 2918, 3046, 3174, 3302, 3430,
     3558, 3664, 3792, 3872, 4160, 4240, 6112, 6160, 6470, 6608, 6784, 6800, 6992, 7088, 7232,
     7248, 42528, 43216, 43264, 43472, 43504, 43600, 44016, 65296, 66720, 68912, 69734, 69872,
     69942, 70096, 70384, 70736, 70864, 71248, 71360, 71472, 71904, 72016, 72784, 73040, 73120,
     92768, 92864, 93008, 120782, 120792, 120802, 120812, 120822, 123200, 123632, 125264,
     130032]"

definition dec_value :: "nat \<Rightarrow> nat option" where
  "dec_value c = (if c < 128 then (if 48 \<le> c \<and> c \<le> 57 then Some (c - 48) else None)
     else map_option (\<lambda>z. c - z) (find (\<lambda>z. z \<le> c \<and> c \<le> z + 9) nd_zeros))"

definition is_decimal :: "nat \<Rightarrow> bool" where
  "is_decimal c = (dec_value c \<noteq> None)"

text \<open>\<open>s.strip()\<close>.\<close>

definition py_strip :: "ustr \<Rightarrow> ustr" where
  "py_strip s = rev (dropWhile is_space (rev (dropWhile is_space s)))"

text \<open>\<open>s.replace(old, '', 1)\<close>: the first occurrence of \<open>old\<close> is removed; an empty
  \<open>old\<close> leaves \<open>s\<close> as it is.\<close>

fun remove_first :: "ustr \<Rightarrow> ustr \<Rightarrow> ustr" where
  "remove_first old [] = []"
| "remove_first old (x # xs) =
     (if old \<noteq> [] \<and> take (length old) (x # xs) = old then drop (length old) (x # xs)
      else x # remove_first old xs)"

text \<open>\<open>', '.join(xs)\<close>.\<close>

fun py_join :: "ustr list \<Rightarrow> ustr" where
  "py_join [] = []"
| "py_join [x] = x"
| "py_join (x # y # ys) = x @ [44, 32] @ py_join (y # ys)"

text \<open>
  \<open>int(s)\<close> for a string: white space is stripped (the characters of \<open>is_space\<close>
  other than U+001C to U+001F), an optional sign follows, then decimal digits of any
  script, single underscores allowed between digits.  More than 4300 digits raise
  ValueError (the default \<open>int_max_str_digits\<close> of CPython 3.11).
\<close>

definition int_space :: "nat \<Rightarrow> bool" where
  "int_space c = (is_space c \<and> \<not> (28 \<le> c \<and> c \<le> 31))"

text \<open>\<open>int_digits acc n prev s\<close> reads the digits of \<open>s\<close>: \<open>acc\<close> is the value so far,
  \<open>n\<close> the number of digits read, \<open>prev\<close> tells that the previous character was a digit.\<close>

fun int_digits :: "nat \<Rightarrow> nat \<Rightarrow> bool \<Rightarrow> ustr \<Rightarrow> (nat \<times> nat) option" where
  "int_digits acc n prev [] = (if prev then Some (acc, n) else None)"
| "int_digits acc n prev (c # cs) =
     (if c = 95 then (if prev then int_digits acc n False cs else None)
      else (case dec_value c of
              None \<Rightarrow> None
            | Some d \<Rightarrow> int_digits (10 * acc + d) (Suc n) True cs))"

definition py_int :: "ustr \<Rightarrow> error + int" where
  "py_int s =
     (let t = rev (dropWhile int_space (rev (dropWhile int_space s)));
          (neg, ds) = (case t of
                         [] \<Rightarrow> (False, [])
                       | c # cs \<Rightarrow> if c = 45 then (True, cs) else if c = 43 then (False, cs)
                                  else (False, t))
      in case int_digits 0 0 False ds of
           None \<Rightarrow> Inl ValueError
         | Some (v, n) \<Rightarrow> if n > 4300 then Inl ValueError
                          else Inr (if neg then - int v else int v))"

text \<open>\<open>int(x)\<close> where \<open>x\<close> is a group of a match: \<open>None\<close> raises TypeError.\<close>

definition py_int_opt :: "ustr option \<Rightarrow> error + int" where
  "py_int_opt x = (case x of None \<Rightarrow> Inl TypeError | Some s \<Rightarrow> py_int s)"

text \<open>\<open>str(n)\<close> and the format \<open>f"{n:02d}"\<close>: the decimal digits, for a negative number
  after a minus sign, padded with zeros to a width of at least two.\<close>

fun digits_of :: "nat \<Rightarrow> ustr" where
  "digits_of n = (if n < 10 then [48 + n] else digits_of (n div 10) @ [48 + n mod 10])"

declare digits_of.simps [simp del]

definition py_str :: "int \<Rightarrow> ustr" where
  "py_str i = (if i < 0 then 45 # digits_of (nat (- i)) else digits_of (nat i))"

definition format_02d :: "int \<Rightarrow> ustr" where
  "format_02d i =
     (if i < 0 then 45 # replicate (1 - length (digits_of (nat (- i)))) 48 @ digits_of (nat (- i))
      else replicate (2 - length (digits_of (nat i))) 48 @ digits_of (nat i))"


section \<open>Regular expressions\<close>

text \<open>
  The patterns written in the source are kept as syntax trees and run by a backtracking
  matcher with the semantics of Python's \<open>re\<close>: alternatives are tried in order
  (a greedy repetition takes a character first, a lazy one leaves first), the leftmost start
  wins.  Repetition is applied to single-character classes only, which is all that the
  patterns of the source need.
\<close>

datatype citem = CChar nat | CRange nat nat | CDigit | CSpace

datatype cset = CSet bool "citem list"
  \<comment> \<open>\<open>CSet True items\<close> is the negated class \<open>[^...]\<close>\<close>

fun in_item :: "citem \<Rightarrow> nat \<Rightarrow> bool" where
  "in_item (CChar a) c = (c = a)"
| "in_item (CRange a b) c = (a \<le> c \<and> c \<le> b)"
| "in_item CDigit c = is_decimal c"
| "in_item CSpace c = is_space c"

fun in_cset :: "cset \<Rightarrow> nat \<Rightarrow> bool" where
  "in_cset (CSet neg items) c = (neg \<noteq> list_ex (\<lambda>i. in_item i c) items)"

datatype regex =
    Eps
  | Cls cset
  | Rep bool nat "nat option" cset
      \<comment> \<open>\<open>Rep greedy min max cs\<close>: \<open>cs{min,max}\<close>, \<open>max = None\<close> for no upper bound\<close>
  | Grp nat regex
      \<comment> \<open>capturing group number \<open>n \<ge> 1\<close>\<close>
  | Seq regex regex

text \<open>A compiled pattern: its tree and its number of capturing groups.\<close>

datatype prog = Prog regex nat

text \<open>A match object: \<open>group(0)\<close> and the groups \<open>1..n\<close>; a group that took no part
  in the match is \<open>None\<close>.\<close>

datatype rmatch = Match (whole: ustr) (groups: "ustr option list")

text \<open>\<open>m.group(i)\<close>: IndexError when the pattern has no group \<open>i\<close>.\<close>

definition group :: "rmatch \<Rightarrow> nat \<Rightarrow> error + ustr option" where
  "group m i = (if i = 0 then Inr (Some (whole m))
                else if i \<le> length (groups m) then Inr (groups m ! (i - 1))
                else Inl IndexError)"

text \<open>The matcher is written with a continuation \<open>k\<close> that receives the rest of the
  subject; \<open>None\<close> makes the matcher backtrack.\<close>

fun rep_greedy :: "cset \<Rightarrow> nat \<Rightarrow> nat option \<Rightarrow> ustr \<Rightarrow> (ustr \<Rightarrow> 'a option) \<Rightarrow> 'a option" where
  "rep_greedy cs mn mx [] k = (if mn = 0 then k [] else None)"
| "rep_greedy cs mn mx (c # s) k =
     (if mx \<noteq> Some 0 \<and> in_cset cs c then
        (case rep_greedy cs (mn - 1) (map_option (\<lambda>m. m - 1) mx) s k of
           Some r \<Rightarrow> Some r
         | None \<Rightarrow> if mn = 0 then k (c # s) else None)
      else if mn = 0 then k (c # s) else None)"

fun rep_lazy :: "cset \<Rightarrow> nat \<Rightarrow> nat option \<Rightarrow> ustr \<Rightarrow> (ustr \<Rightarrow> 'a option) \<Rightarrow> 'a option" where
  "rep_lazy cs mn mx [] k = (if mn = 0 then k [] else None)"
| "rep_lazy cs mn mx (c # s) k =
     (case (if mn = 0 then k (c # s) else None) of
        Some r \<Rightarrow> Some r
      | None \<Rightarrow> if mx \<noteq> Some 0 \<and> in_cset cs c
                then rep_lazy cs (mn - 1) (map_option (\<lambda>m. m - 1) mx) s k
                else None)"

fun mt :: "regex \<Rightarrow> ustr \<Rightarrow> ustr option list \<Rightarrow> (ustr \<Rightarrow> ustr option list \<Rightarrow> 'a option)
            \<Rightarrow> 'a option" where
  "mt Eps s c k = k s c"
| "mt (Cls cs) s c k = (case s of [] \<Rightarrow> None | x # xs \<Rightarrow> if in_cset cs x then k xs c else None)"
| "mt (Rep g mn mx cs) s c k =
     (if g then rep_greedy cs mn mx s (\<lambda>s'. k s' c) else rep_lazy cs mn mx s (\<lambda>s'. k s' c))"
| "mt (Grp n r) s c k =
     mt r s c (\<lambda>s' c'. k s' (c'[n - 1 := Some (take (length s - length s') s)]))"
| "mt (Seq a b) s c k = mt a s c (\<lambda>s' c'. mt b s' c' k)"

text \<open>\<open>match_at p s\<close>: a match of \<open>p\<close> that starts at the beginning of \<open>s\<close>, with the
  text after it.\<close>

fun match_at :: "prog \<Rightarrow> ustr \<Rightarrow> (rmatch \<times> ustr) option" where
  "match_at (Prog r n) s =
     mt r s (replicate n None) (\<lambda>s' c. Some (Match (take (length s - length s') s) c, s'))"

text \<open>\<open>re_search p s\<close>: the leftmost match, between the text before and the text after.\<close>

fun re_search :: "prog \<Rightarrow> ustr \<Rightarrow> (ustr \<times> rmatch \<times> ustr) option" where
  "re_search p [] = (case match_at p [] of None \<Rightarrow> None | Some (m, post) \<Rightarrow> Some ([], m, post))"
| "re_search p (x # xs) =
     (case match_at p (x # xs) of
        Some (m, post) \<Rightarrow> Some ([], m, post)
      | None \<Rightarrow> (case re_search p xs of
                   None \<Rightarrow> None
                 | Some (pre, m, post) \<Rightarrow> Some (x # pre, m, post)))"

text \<open>
  \<open>re.finditer\<close> and \<open>re.sub\<close>, for patterns whose matches are never empty (every pattern
  they are used with below consumes at least one character): the search goes on in the text
  after each match.
\<close>

function re_finditer :: "prog \<Rightarrow> ustr \<Rightarrow> rmatch list" where
  "re_finditer p s =
     (case re_search p s of
        None \<Rightarrow> []
      | Some (pre, m, post) \<Rightarrow> if length post < length s then m # re_finditer p post else [m])"
  by pat_completeness auto
termination
  by (relation "measure (\<lambda>(p, s). length s)") auto

function re_sub :: "prog \<Rightarrow> ustr \<Rightarrow> ustr \<Rightarrow> ustr" where
  "re_sub p repl s =
     (case re_search p s of
        None \<Rightarrow> s
      | Some (pre, m, post) \<Rightarrow>
          if length post < length s then pre @ repl @ re_sub p repl post
          else pre @ repl @ post)"
  by pat_completeness auto
termination
  by (relation "measure (\<lambda>(p, repl, s). length s)") auto

declare re_finditer.simps [simp del] re_sub.simps [simp del]

definition seqs :: "regex list \<Rightarrow> regex" where
  "seqs rs = foldr Seq rs Eps"

definition lit :: "nat \<Rightarrow> regex" where
  "lit a = Cls (CSet False [CChar a])"

definition one_of :: "nat list \<Rightarrow> regex" where
  "one_of as = Cls (CSet False (map CChar as))"

subsection \<open>The patterns written in \<open>main.py\<close>\<close>

text \<open>Code points: \<open>[\<close> 91, \<open>]\<close> 93, the full-width brackets U+3010 and U+3011.\<close>

definition LBR :: nat where "LBR = 91"
definition RBR :: nat where "RBR = 93"
definition LFW :: nat where "LFW = 12304"
definition RFW :: nat where "RFW = 12305"

text \<open>The pattern of a bracketed block, used by \<open>re.finditer\<close> (no flags): one of the
  two opening brackets, \<^verbatim>\<open>(.*?)\<close> as group 1, one of the two closing brackets.\<close>

definition bracket_rx :: prog where
  "bracket_rx = Prog (seqs [one_of [LBR, LFW],
                            Grp 1 (Rep False 0 None (CSet True [CChar 10])),
                            one_of [RBR, RFW]]) 1"

text \<open>\<^verbatim>\<open>\[([^\]]*?)\s*[Ss]eason\s*(\d+)\]\<close> under \<open>re.IGNORECASE\<close>: each letter
  matches both cases, and \<open>s\<close> also matches U+017F (long s), as Python's Unicode
  case-insensitive matching does.\<close>

definition title_season_rx :: prog where
  "title_season_rx = Prog (seqs [lit LBR,
       Grp 1 (Rep False 0 None (CSet True [CChar RBR])),
       Rep True 0 None (CSet False [CSpace]),
       one_of [83, 115, 383], one_of [69, 101], one_of [65, 97], one_of [83, 115, 383],
       one_of [79, 111], one_of [78, 110],
       Rep True 0 None (CSet False [CSpace]),
       Grp 2 (Rep True 1 None (CSet False [CDigit])),
       lit RBR]) 2"

text \<open>The same without the group, used by \<open>re.sub\<close> in the title fallback.\<close>

definition strip_rx :: prog where
  "strip_rx = Prog (seqs [one_of [LBR, LFW],
                          Rep False 0 None (CSet True [CChar 10]),
                          one_of [RFW, RBR]]) 0"

text \<open>\<^verbatim>\<open>[\s._-]+\<close>.\<close>

definition sep_rx :: prog where
  "sep_rx = Prog (Rep True 1 None (CSet False [CSpace, CChar 46, CChar 95, CChar 45])) 0"


section \<open>\<open>MediaManager.parse_filename\<close>\<close>

text \<open>
  The rules of the pattern file (\<open>self.patterns\<close>) are pattern texts under rule names.
  They are run by \<open>re.search(pattern, text, re.IGNORECASE)\<close>, which the model takes as a
  parameter \<open>rs\<close>: given the pattern text and the subject it raises, finds nothing, or
  returns a match object.  Nothing is assumed of it, so what is proved for every \<open>rs\<close>
  holds for every rule that can be written.
\<close>

type_synonym pattern_set = "string \<rightharpoonup> ustr"

type_synonym searcher = "ustr \<Rightarrow> ustr \<Rightarrow> error + rmatch option"

text \<open>The dictionary \<open>info\<close> while the file name is parsed; \<open>remarks\<close> is the list under
  the key of the source tags.\<close>

record info =
  group_name :: "ustr option"
  title :: "ustr option"
  season :: "ustr option"
  episode :: "ustr option"
  resolution :: "ustr option"
  video_codec :: "ustr option"
  audio_codec :: "ustr option"
  subtitle :: "ustr option"
  remarks :: "ustr list"

definition empty_info :: info where
  "empty_info = \<lparr>group_name = None, title = None, season = None, episode = None,
     resolution = None, video_codec = None, audio_codec = None, subtitle = None,
     remarks = []\<rparr>"

text \<open>The fields that \<open>tech_keys\<close> names, in the order of the dictionary.\<close>

datatype tfield = FResolution | FRemarks | FVideoCodec | FAudioCodec | FSubtitle | FGroup

definition tech_keys :: "(string \<times> tfield) list" where
  "tech_keys = [(''resolution'', FResolution), (''source'', FRemarks),
     (''video_codec'', FVideoCodec), (''audio_codec'', FAudioCodec),
     (''subtitle'', FSubtitle), (''group'', FGroup)]"

fun get_field :: "info \<Rightarrow> tfield \<Rightarrow> ustr option" where
  "get_field i FResolution = resolution i"
| "get_field i FVideoCodec = video_codec i"
| "get_field i FAudioCodec = audio_codec i"
| "get_field i FSubtitle = subtitle i"
| "get_field i FGroup = group_name i"
| "get_field i FRemarks = None"

fun set_field :: "info \<Rightarrow> tfield \<Rightarrow> ustr \<Rightarrow> info" where
  "set_field i FResolution v = i\<lparr>resolution := Some v\<rparr>"
| "set_field i FVideoCodec v = i\<lparr>video_codec := Some v\<rparr>"
| "set_field i FAudioCodec v = i\<lparr>audio_codec := Some v\<rparr>"
| "set_field i FSubtitle v = i\<lparr>subtitle := Some v\<rparr>"
| "set_field i FGroup v = i\<lparr>group_name := Some v\<rparr>"
| "set_field i FRemarks v = i\<lparr>remarks := remarks i @ [v]\<rparr>"

text \<open>\<open>(match.group(1) or match.group(0)).strip()\<close>: group 1 unless it is \<open>None\<close> or
  empty; a pattern without a group raises IndexError.\<close>

definition match_value :: "rmatch \<Rightarrow> error + ustr" where
  "match_value m =
     (case group m 1 of
        Inl e \<Rightarrow> Inl e
      | Inr g \<Rightarrow> Inr (py_strip (case g of None \<Rightarrow> whole m
                                | Some v \<Rightarrow> if v = [] then whole m else v)))"

text \<open>The inner loop over \<open>tech_keys\<close> for one bracket content: the new \<open>info\<close> and the
  flag \<open>matched\<close>.\<close>

fun try_keys :: "searcher \<Rightarrow> pattern_set \<Rightarrow> ustr \<Rightarrow> (string \<times> tfield) list \<Rightarrow> info
                  \<Rightarrow> error + (info \<times> bool)" where
  "try_keys rs P content [] i = Inr (i, False)"
| "try_keys rs P content ((key, field) # ks) i =
     (case P key of
        None \<Rightarrow> try_keys rs P content ks i
      | Some pattern \<Rightarrow>
          if pattern = [] then try_keys rs P content ks i
          else (case rs pattern content of
                  Inl e \<Rightarrow> Inl e
                | Inr None \<Rightarrow> try_keys rs P content ks i
                | Inr (Some m) \<Rightarrow>
                    (case match_value m of
                       Inl e \<Rightarrow> Inl e
                     | Inr v \<Rightarrow>
                         Inr (if key = ''source'' then i\<lparr>remarks := remarks i @ [v]\<rparr>
                              else if get_field i field = None then set_field i field v
                              else i, True))))"

text \<open>The outer loop over the bracketed blocks found in \<open>work_str\<close>; the state is \<open>info\<close>
  and \<open>temp_work_str\<close>.\<close>

fun tech_loop :: "searcher \<Rightarrow> pattern_set \<Rightarrow> rmatch list \<Rightarrow> info \<times> ustr
                   \<Rightarrow> error + (info \<times> ustr)" where
  "tech_loop rs P [] st = Inr st"
| "tech_loop rs P (b # bs) (i, temp) =
     (case group b 1 of
        Inl e \<Rightarrow> Inl e
      | Inr None \<Rightarrow> Inl TypeError
      | Inr (Some content) \<Rightarrow>
          (case try_keys rs P content tech_keys i of
             Inl e \<Rightarrow> Inl e
           | Inr (i', matched) \<Rightarrow>
               tech_loop rs P bs (i', if matched then remove_first (whole b) temp else temp)))"

text \<open>Step 1: the bracket with title and season.\<close>

definition group_text :: "rmatch \<Rightarrow> nat \<Rightarrow> error + ustr" where
  \<comment> \<open>\<open>m.group(i).strip()\<close>: a group that took no part is \<open>None\<close>, which has no \<open>strip\<close>\<close>
  "group_text m i =
     (case group m i of
        Inl e \<Rightarrow> Inl e
      | Inr None \<Rightarrow> Inl AttributeError
      | Inr (Some v) \<Rightarrow> Inr (py_strip v))"

definition title_season_step :: "ustr \<Rightarrow> info \<Rightarrow> error + (info \<times> ustr)" where
  "title_season_step filename i =
     (case re_search title_season_rx filename of
        None \<Rightarrow> Inr (i, filename)
      | Some (pre, m, post) \<Rightarrow>
          ebind (group_text m 1) (\<lambda>t.
          ebind (group_text m 2) (\<lambda>n.
            Inr (i\<lparr>title := Some t, season := Some n\<rparr>, remove_first (whole m) filename))))"

text \<open>Step 3: episode and season from what is left.  A rule missing from the pattern
  file is replaced by the empty pattern text (\<open>patterns.get(key, '')\<close>).\<close>

definition get_rule :: "pattern_set \<Rightarrow> string \<Rightarrow> ustr" where
  "get_rule P key = (case P key of None \<Rightarrow> [] | Some p \<Rightarrow> p)"

definition episode_step :: "searcher \<Rightarrow> pattern_set \<Rightarrow> info \<times> ustr \<Rightarrow> error + (info \<times> ustr)" where
  "episode_step rs P st =
     (case st of (i, work) \<Rightarrow>
        if episode i \<noteq> None then Inr (i, work)
        else
          ebind (rs (get_rule P ''season_episode'') work) (\<lambda>se_match.
            case se_match of
              Some m \<Rightarrow>
                ebind (if season i = None
                       then ebind (group m 1) (\<lambda>g1. ebind (py_int_opt g1) (\<lambda>n.
                              Inr (i\<lparr>season := Some (py_str n)\<rparr>)))
                       else Inr i) (\<lambda>i1.
                ebind (group m 2) (\<lambda>g2. ebind (py_int_opt g2) (\<lambda>n.
                  Inr (i1\<lparr>episode := Some (format_02d n)\<rparr>, remove_first (whole m) work))))
            | None \<Rightarrow>
                ebind (rs (get_rule P ''episode'') work) (\<lambda>ep_match.
                  case ep_match of
                    Some m \<Rightarrow>
                      ebind (group m 1) (\<lambda>g1. ebind (py_int_opt g1) (\<lambda>n.
                        Inr (i\<lparr>episode := Some (format_02d n)\<rparr>,
                             remove_first (whole m) work)))
                  | None \<Rightarrow> Inr (i, work))))"

text \<open>Step 4: the title from the rest of the name.\<close>

definition unknown_title :: ustr where
  "unknown_title = ustr_of ''Unknown Title''"

definition fallback_title :: "ustr \<Rightarrow> ustr" where
  "fallback_title work =
     (let t = py_strip (re_sub sep_rx [32] (py_strip (re_sub strip_rx [] work)))
      in if t = [] then unknown_title else t)"

text \<open>The dictionary that \<open>parse_filename\<close> returns, with the key that
  \<open>process_directory\<close> may add (\<open>bangumi_eps\<close>, absent as \<open>None\<close>).  The remarks are now
  one string, or \<open>None\<close>.\<close>

datatype json = JNull | JBool bool | JInt int | JStr ustr | JList "json list"
  | JDict "(ustr \<times> json) list"

record media_info =
  m_group :: "ustr option"
  m_title :: "ustr option"
  m_season :: "ustr option"
  m_episode :: "ustr option"
  m_resolution :: "ustr option"
  m_video_codec :: "ustr option"
  m_audio_codec :: "ustr option"
  m_subtitle :: "ustr option"
  m_remarks :: "ustr option"
  bangumi_eps :: "json option"

definition finish :: "info \<times> ustr \<Rightarrow> media_info" where
  "finish st =
     (case st of (i, work) \<Rightarrow>
        \<lparr>m_group = group_name i,
         m_title = (if title i = None then Some (fallback_title work) else title i),
         m_season = (if season i = None then Some [49] else season i),
         m_episode = episode i,
         m_resolution = resolution i,
         m_video_codec = video_codec i,
         m_audio_codec = audio_codec i,
         m_subtitle = subtitle i,
         m_remarks = (if py_join (remarks i) = [] then None else Some (py_join (remarks i))),
         bangumi_eps = None\<rparr>)"

definition parse_filename :: "searcher \<Rightarrow> pattern_set \<Rightarrow> ustr \<Rightarrow> error + media_info" where
  "parse_filename rs P filename =
     ebind (title_season_step filename empty_info) (\<lambda>st1.
     ebind (tech_loop rs P (re_finditer bracket_rx (snd st1)) st1) (\<lambda>st2.
     ebind (episode_step rs P st2) (\<lambda>st3.
     Inr (finish st3))))"


subsection \<open>A concrete \<open>re.search\<close> for the examples\<close>

text \<open>
  The rule texts used in the examples of this theory, each with the program that
  \<open>re.compile(text, re.IGNORECASE)\<close> stands for (letters match both cases, \<open>s\<close> also
  U+017F).  The backslash is code point 92.
\<close>

definition digits1 :: regex where
  "digits1 = Rep True 1 None (CSet False [CDigit])"

definition known_patterns :: "(ustr \<times> prog) list" where
  "known_patterns =
    [([], Prog Eps 0),
     (92 # ustr_of ''d{3,4}p'',
        Prog (seqs [Rep True 3 (Some 4) (CSet False [CDigit]), one_of [80, 112]]) 0),
     (ustr_of ''x26[45]'',
        Prog (seqs [one_of [88, 120], lit 50, lit 54, one_of [52, 53]]) 0),
     (ustr_of ''('' @ 92 # ustr_of ''d{3,4}p)'',
        Prog (Grp 1 (seqs [Rep True 3 (Some 4) (CSet False [CDigit]), one_of [80, 112]])) 1),
     (ustr_of ''(x26[45])'',
        Prog (Grp 1 (seqs [one_of [88, 120], lit 50, lit 54, one_of [52, 53]])) 1),
     (ustr_of ''S('' @ 92 # ustr_of ''d+)E('' @ 92 # ustr_of ''d+)'',
        Prog (seqs [one_of [83, 115, 383], Grp 1 digits1, one_of [69, 101], Grp 2 digits1]) 2),
     (ustr_of ''('' @ 92 # ustr_of ''d+)'', Prog (Grp 1 digits1) 1),
     (ustr_of ''(BD)'', Prog (Grp 1 (seqs [one_of [66, 98], one_of [68, 100]])) 1),
     (ustr_of ''(-?'' @ 92 # ustr_of ''d+)'',
        Prog (Grp 1 (seqs [Rep True 0 (Some 1) (CSet False [CChar 45]), digits1])) 1)]"

definition search_ic :: searcher where
  "search_ic pattern s =
     (case map_of known_patterns pattern of
        None \<Rightarrow> Inl Unsupported
      | Some p \<Rightarrow> Inr (map_option (\<lambda>(pre, m, post). m) (re_search p s)))"


section \<open>\<open>bangumi_api.py\<close>: the client of the title database\<close>

text \<open>
  The network is a parameter: a transport answers a request and changes the world \<open>'w\<close>,
  so the same request may be answered differently later.  A request is named by what it
  asks for instead of by its URL; a response is a status code and a JSON body (a body that
  is not JSON, and JSON numbers that are not integers, are outside the model).
\<close>

datatype request = SearchSubject ustr | SubjectDetails json | Episodes json

datatype response = ConnectionFailed | Response nat json

type_synonym 'w transport = "request \<Rightarrow> 'w \<Rightarrow> response \<times> 'w"

text \<open>Truth value of a JSON value, \<open>d.get(key, default)\<close>, \<open>d[key]\<close>, \<open>x[0]\<close>,
  \<open>x[:4]\<close> and \<open>key in d\<close>, with the exceptions of Python.  The keys of a JSON object
  are strings, so \<open>d[0]\<close> on an object is a KeyError.\<close>

fun truthy :: "json \<Rightarrow> bool" where
  "truthy JNull = False"
| "truthy (JBool b) = b"
| "truthy (JInt n) = (n \<noteq> 0)"
| "truthy (JStr s) = (s \<noteq> [])"
| "truthy (JList xs) = (xs \<noteq> [])"
| "truthy (JDict kv) = (kv \<noteq> [])"

fun dict_get :: "json \<Rightarrow> ustr \<Rightarrow> json \<Rightarrow> error + json" where
  "dict_get (JDict kv) k dflt = Inr (case map_of kv k of None \<Rightarrow> dflt | Some v \<Rightarrow> v)"
| "dict_get _ k dflt = Inl AttributeError"

fun dict_index :: "json \<Rightarrow> ustr \<Rightarrow> error + json" where
  "dict_index (JDict kv) k = (case map_of kv k of None \<Rightarrow> Inl KeyError | Some v \<Rightarrow> Inr v)"
| "dict_index _ k = Inl TypeError"

fun index0 :: "json \<Rightarrow> error + json" where
  "index0 (JList xs) = (case xs of [] \<Rightarrow> Inl IndexError | x # _ \<Rightarrow> Inr x)"
| "index0 (JStr s) = (case s of [] \<Rightarrow> Inl IndexError | c # _ \<Rightarrow> Inr (JStr [c]))"
| "index0 (JDict kv) = Inl KeyError"
| "index0 _ = Inl TypeError"

fun slice4 :: "json \<Rightarrow> error + json" where
  "slice4 (JStr s) = Inr (JStr (take 4 s))"
| "slice4 (JList xs) = Inr (JList (take 4 xs))"
| "slice4 _ = Inl TypeError"

fun has_key :: "json \<Rightarrow> ustr \<Rightarrow> bool" where
  "has_key (JDict kv) k = (map_of kv k \<noteq> None)"
| "has_key _ k = False"

definition py_or :: "json \<Rightarrow> json \<Rightarrow> json" where
  "py_or a b = (if truthy a then a else b)"

text \<open>\<open>_make_request\<close>: a failed connection becomes NetworkError, status 404
  NotFoundError, any other status from 400 to 599 APIError.\<close>

definition make_request :: "'w transport \<Rightarrow> request \<Rightarrow> 'w \<Rightarrow> (error + json) \<times> 'w" where
  "make_request http req w =
     (case http req w of
        (ConnectionFailed, w') \<Rightarrow> (Inl NetworkError, w')
      | (Response status body, w') \<Rightarrow>
          (if status = 404 then Inl NotFoundError
           else if 400 \<le> status \<and> status < 600 then Inl APIError
           else Inr body, w'))"

text \<open>\<open>search_subject\<close>: the first entry of the result list, or \<open>None\<close>.  Its
  \<open>except\<close> clause catches NotFoundError, IndexError and KeyError only.\<close>

definition search_body :: "json \<Rightarrow> error + json option" where
  "search_body data =
     (if \<not> truthy data then Inr None
      else ebind (dict_get data (ustr_of ''list'') JNull) (\<lambda>lst.
           if \<not> truthy lst then Inr None
           else ebind (index0 lst) (\<lambda>first_result.
                ebind (dict_get first_result (ustr_of ''name_cn'') JNull) (\<lambda>n.
                ebind (dict_index first_result (ustr_of ''id'')) (\<lambda>i.
                Inr (Some first_result))))))"

definition search_subject :: "'w transport \<Rightarrow> ustr \<Rightarrow> 'w \<Rightarrow> (error + json option) \<times> 'w" where
  "search_subject http term w =
     (case make_request http (SearchSubject term) w of (r, w') \<Rightarrow>
        (case ebind r search_body of
           Inl e \<Rightarrow> if e = NotFoundError \<or> e = IndexError \<or> e = KeyError then Inr None
                    else Inl e
         | Inr x \<Rightarrow> Inr x, w'))"

text \<open>The dictionary that \<open>get_details_for_scraping\<close> returns; of its eight entries the
  two that \<open>main.py\<close> reads are kept.\<close>

record details =
  name_cn :: json
  total_episodes :: json

text \<open>The list comprehension over \<open>all_episodes\<close> calls \<open>ep.get\<close> on every element.\<close>

fun episodes_list :: "json \<Rightarrow> error + unit" where
  "episodes_list (JList eps) =
     (if list_all (\<lambda>ep. case ep of JDict _ \<Rightarrow> True | _ \<Rightarrow> False) eps then Inr ()
      else Inl AttributeError)"
| "episodes_list (JDict kv) = (if kv = [] then Inr () else Inl AttributeError)"
| "episodes_list (JStr s) = (if s = [] then Inr () else Inl AttributeError)"
| "episodes_list _ = Inl TypeError"

definition unknown_cn :: json where
  "unknown_cn = JStr [26410, 30693]"

definition build_details :: "json \<Rightarrow> json \<Rightarrow> error + details" where
  "build_details d data =
     ebind (dict_get data (ustr_of ''data'') (JList [])) (\<lambda>all_episodes.
     ebind (episodes_list all_episodes) (\<lambda>_.
     ebind (dict_get d (ustr_of ''name_cn'') JNull) (\<lambda>n1.
     ebind (dict_get d (ustr_of ''name'') unknown_cn) (\<lambda>n2.
     ebind (dict_get d (ustr_of ''date'') JNull) (\<lambda>date.
     ebind (slice4 (py_or date unknown_cn)) (\<lambda>year.
     ebind (dict_get d (ustr_of ''eps_count'') JNull) (\<lambda>e1.
     ebind (dict_get d (ustr_of ''eps'') (JInt 0)) (\<lambda>e2.
     ebind (dict_get d (ustr_of ''images'') (JDict [])) (\<lambda>images.
     ebind (dict_get images (ustr_of ''large'') (JStr [])) (\<lambda>image.
     Inr \<lparr>name_cn = py_or n1 n2, total_episodes = py_or e1 e2\<rparr>))))))))))"

definition get_details_for_scraping ::
    "'w transport \<Rightarrow> ustr \<Rightarrow> 'w \<Rightarrow> (error + details option) \<times> 'w" where
  "get_details_for_scraping http search_term w =
     (case search_subject http search_term w of
        (Inl e, w1) \<Rightarrow> (Inl e, w1)
      | (Inr None, w1) \<Rightarrow> (Inr None, w1)
      | (Inr (Some search_result), w1) \<Rightarrow>
          if \<not> truthy search_result \<or> \<not> has_key search_result (ustr_of ''id'')
          then (Inr None, w1)
          else (case dict_index search_result (ustr_of ''id'') of
                  Inl e \<Rightarrow> (Inl e, w1)
                | Inr bangumi_id \<Rightarrow>
                    (case make_request http (SubjectDetails bangumi_id) w1 of
                       (Inl e, w2) \<Rightarrow> (if is_APIError e then Inr None else Inl e, w2)
                     | (Inr d, w2) \<Rightarrow>
                         (case make_request http (Episodes bangumi_id) w2 of
                            (Inl e, w3) \<Rightarrow> (if is_APIError e then Inr None else Inl e, w3)
                          | (Inr data, w3) \<Rightarrow>
                              (case build_details d data of
                                 Inl e \<Rightarrow> (if is_APIError e then Inr None else Inl e, w3)
                               | Inr r \<Rightarrow> (Inr (Some r), w3))))))"

section \<open>The resolver of \<open>main.py\<close>\<close>

text \<open>
  The state of a \<open>MediaManager\<close> during one run: the cache \<open>_api_cache\<close>, the world
  behind the client, and, for the proofs only, the list of the queries that were handed
  to the client, oldest first.  The client call \<open>get_details_for_scraping\<close> is a
  parameter \<open>fetch\<close> of the resolver.
\<close>

record 'w manager =
  api_cache :: "ustr \<rightharpoonup> details option"
  lookups :: "ustr list"
  world :: 'w

type_synonym 'w fetcher = "ustr \<Rightarrow> 'w \<Rightarrow> (error + details option) \<times> 'w"

definition api_query :: "ustr \<Rightarrow> ustr option \<Rightarrow> ustr" where
  "api_query t s =
     (case s of
        None \<Rightarrow> t
      | Some n \<Rightarrow> if n \<noteq> [] \<and> n \<noteq> [49] then t @ ustr_of '' Season '' @ n else t)"

definition get_bangumi_details ::
    "'w fetcher \<Rightarrow> ustr \<Rightarrow> ustr option \<Rightarrow> 'w manager \<Rightarrow> (error + details option) \<times> 'w manager" where
  "get_bangumi_details fetch t s st =
     (let q = api_query t s in
      case api_cache st q of
        Some d \<Rightarrow> (Inr d, st)
      | None \<Rightarrow>
          (case fetch q (world st) of
             (Inl e, w') \<Rightarrow> (Inl e, st\<lparr>lookups := lookups st @ [q], world := w'\<rparr>)
           | (Inr d, w') \<Rightarrow>
               (Inr d, st\<lparr>api_cache := (api_cache st)(q \<mapsto> d),
                           lookups := lookups st @ [q], world := w'\<rparr>)))"

text \<open>The season correction.  Code points: U+7B2C (the ordinal prefix), U+5B63 (season),
  and the numerals one to ten of \<open>cn_num_map\<close>.\<close>

definition DI :: nat where "DI = 31532"
definition JI :: nat where "JI = 23395"

definition cn_num_map :: "(ustr \<times> int) list" where
  "cn_num_map = [([19968], 1), ([20108], 2), ([19977], 3), ([22235], 4), ([20116], 5),
     ([20845], 6), ([19971], 7), ([20843], 8), ([20061], 9), ([21313], 10)]"

definition cn_numerals :: "nat list" where
  "cn_numerals = [19968, 20108, 19977, 22235, 20116, 20845, 19971, 20843, 20061, 21313]"

text \<open>The pattern of the season marker, with the numeral as group 1, and the pattern
  that \<open>re.sub\<close> uses to clean the title (white space, then the marker); no flags.\<close>

definition cn_season_rx :: prog where
  "cn_season_rx = Prog (seqs [lit DI, Grp 1 (one_of cn_numerals), lit JI]) 1"

definition clean_rx :: prog where
  "clean_rx = Prog (seqs [Rep True 0 None (CSet False [CSpace]), lit DI,
                          one_of cn_numerals, lit JI]) 0"

definition season_correction :: "ustr option \<Rightarrow> ustr \<Rightarrow> ustr option" where
  "season_correction s api_title =
     (if s = Some [49] then
        (case re_search cn_season_rx api_title of
           None \<Rightarrow> s
         | Some (pre, m, post) \<Rightarrow>
             (case groups m of
                Some cn_season # _ \<Rightarrow>
                  (case map_of cn_num_map cn_season of
                     None \<Rightarrow> s
                   | Some n \<Rightarrow> Some (py_str n))
              | _ \<Rightarrow> s))
      else s)"

text \<open>What \<open>process_directory\<close> does with a record that was found; a title that is not
  a string makes \<open>re\<close> raise TypeError.\<close>

definition apply_details :: "media_info \<Rightarrow> details \<Rightarrow> error + media_info" where
  "apply_details mi d =
     (case name_cn d of
        JStr api_title \<Rightarrow>
          Inr (mi\<lparr>m_season := season_correction (m_season mi) api_title,
                  m_title := Some (py_strip (re_sub clean_rx [] api_title)),
                  bangumi_eps := Some (total_episodes d)\<rparr>)
      | _ \<Rightarrow> Inl TypeError)"

definition resolve :: "'w fetcher \<Rightarrow> media_info \<Rightarrow> 'w manager \<Rightarrow> (error + media_info) \<times> 'w manager" where
  "resolve fetch mi st =
     (case m_title mi of
        None \<Rightarrow> (Inr mi, st)
      | Some t \<Rightarrow>
          if t \<noteq> [] \<and> t \<noteq> unknown_title then
            (case get_bangumi_details fetch t (m_season mi) st of
               (Inl e, st') \<Rightarrow> (Inl e, st')
             | (Inr None, st') \<Rightarrow> (Inr mi, st')
             | (Inr (Some d), st') \<Rightarrow> (apply_details mi d, st'))
          else (Inr mi, st))"

text \<open>
  The loop of \<open>process_directory\<close> over the stems of the media files, in the order of
  the scan.  An exception ends the loop (only \<open>main\<close> catches it, and logs a crash).  The
  result is the exception, if any, and the records that reached \<open>create_hard_link\<close>;
  the linking itself is file-system work outside the model.
\<close>

definition process_file ::
    "searcher \<Rightarrow> 'w fetcher \<Rightarrow> pattern_set \<Rightarrow> ustr \<Rightarrow> 'w manager
      \<Rightarrow> (error + media_info) \<times> 'w manager" where
  "process_file rs fetch P stem st =
     (case parse_filename rs P stem of
        Inl e \<Rightarrow> (Inl e, st)
      | Inr mi \<Rightarrow> resolve fetch mi st)"

fun process_files ::
    "searcher \<Rightarrow> 'w fetcher \<Rightarrow> pattern_set \<Rightarrow> ustr list \<Rightarrow> 'w manager
      \<Rightarrow> (error option \<times> media_info list) \<times> 'w manager" where
  "process_files rs fetch P [] st = ((None, []), st)"
| "process_files rs fetch P (f # fs) st =
     (case process_file rs fetch P f st of
        (Inl e, st') \<Rightarrow> ((Some e, []), st')
      | (Inr mi, st') \<Rightarrow>
          (case process_files rs fetch P fs st' of
             ((err, out), st'') \<Rightarrow> ((err, mi # out), st'')))"

definition new_manager :: "'w \<Rightarrow> 'w manager" where
  "new_manager w = \<lparr>api_cache = Map.empty, lookups = [], world = w\<rparr>"

definition process_directory ::
    "searcher \<Rightarrow> 'w fetcher \<Rightarrow> pattern_set \<Rightarrow> ustr list \<Rightarrow> 'w
      \<Rightarrow> (error option \<times> media_info list) \<times> 'w manager" where
  "process_directory rs fetch P stems w = process_files rs fetch P stems (new_manager w)"


section \<open>Example inputs\<close>

text \<open>Rule texts: \<^verbatim>\<open>\d{3,4}p\<close>, \<^verbatim>\<open>x26[45]\<close>, the same two with a capturing group,
  \<^verbatim>\<open>S(\d+)E(\d+)\<close>, \<^verbatim>\<open>(\d+)\<close>, \<^verbatim>\<open>(BD)\<close> and \<^verbatim>\<open>(-?\d+)\<close>.\<close>

definition rule_res :: ustr where "rule_res = 92 # ustr_of ''d{3,4}p''"
definition rule_codec :: ustr where "rule_codec = ustr_of ''x26[45]''"
definition rule_res_g :: ustr where "rule_res_g = ustr_of ''('' @ 92 # ustr_of ''d{3,4}p)''"
definition rule_codec_g :: ustr where "rule_codec_g = ustr_of ''(x26[45])''"
definition rule_se :: ustr where
  "rule_se = ustr_of ''S('' @ 92 # ustr_of ''d+)E('' @ 92 # ustr_of ''d+)''"
definition rule_ep :: ustr where "rule_ep = ustr_of ''('' @ 92 # ustr_of ''d+)''"
definition rule_src :: ustr where "rule_src = ustr_of ''(BD)''"
definition rule_signed :: ustr where "rule_signed = ustr_of ''(-?'' @ 92 # ustr_of ''d+)''"

text \<open>The pattern set of Scenario A as the specification gives it, the same with rules
  for the episode, and a pattern set whose technical rules have a capturing group.\<close>

definition scenario_rules :: pattern_set where
  "scenario_rules = [''resolution'' \<mapsto> rule_res, ''video_codec'' \<mapsto> rule_codec]"

definition scenario_rules_ep :: pattern_set where
  "scenario_rules_ep = [''resolution'' \<mapsto> rule_res, ''video_codec'' \<mapsto> rule_codec,
     ''season_episode'' \<mapsto> rule_se, ''episode'' \<mapsto> rule_ep]"

definition grouped_rules :: pattern_set where
  "grouped_rules = [''resolution'' \<mapsto> rule_res_g, ''video_codec'' \<mapsto> rule_codec_g,
     ''season_episode'' \<mapsto> rule_se, ''episode'' \<mapsto> rule_ep]"

text \<open>The grouped rules with a rule for the source tags, and with an episode rule that
  takes a sign.\<close>

definition source_rules :: pattern_set where
  "source_rules = grouped_rules(''source'' \<mapsto> rule_src)"

definition signed_rules :: pattern_set where
  "signed_rules = [''episode'' \<mapsto> rule_signed, ''season_episode'' \<mapsto> rule_se]"

definition scenario_stem :: ustr where
  "scenario_stem = ustr_of ''[Group][Spy x Family Season 3][1080p][x264] - 05''"

text \<open>A network that is down, and one that answers every search with nothing.\<close>

definition down_transport :: "unit transport" where
  "down_transport req w = (ConnectionFailed, w)"

definition empty_transport :: "unit transport" where
  "empty_transport req w = (Response 200 (JDict [(ustr_of ''list'', JList [])]), w)"

text \<open>A database whose result list is a string instead of a list of records.\<close>

definition garbled_transport :: "unit transport" where
  "garbled_transport req w = (Response 200 (JDict [(ustr_of ''list'', JStr (ustr_of ''oops''))]), w)"

text \<open>A block in full-width brackets.\<close>

definition fw_example :: ustr where
  "fw_example = LFW # ustr_of ''Title Season 2'' @ [RFW]"

text \<open>The technical fields of the returned dictionary, by the name of \<open>tech_keys\<close>;
  the remarks are not a field of this kind.\<close>

fun result_field :: "media_info \<Rightarrow> tfield \<Rightarrow> ustr option" where
  "result_field mi FResolution = m_resolution mi"
| "result_field mi FVideoCodec = m_video_codec mi"
| "result_field mi FAudioCodec = m_audio_codec mi"
| "result_field mi FSubtitle = m_subtitle mi"
| "result_field mi FGroup = m_group mi"
| "result_field mi FRemarks = None"

definition join_remarks :: "ustr list \<Rightarrow> ustr option" where
  "join_remarks xs = (if py_join xs = [] then None else Some (py_join xs))"

text \<open>A name with two resolution tags.\<close>

definition two_res_stem :: ustr where
  "two_res_stem = ustr_of ''[720p][1080p] Show S02E07''"

text \<open>The title that the fall-back makes of a name without brackets: runs of white
  space, full stops, underscores and hyphens become one space, the ends are trimmed, and
  an empty rest becomes the sentinel.\<close>

definition plain_title :: "ustr \<Rightarrow> ustr" where
  "plain_title stem =
     (let t = py_strip (re_sub sep_rx [32] (py_strip stem))
      in if t = [] then unknown_title else t)"

definition my_show_result :: media_info where
  "my_show_result = \<lparr>m_group = None, m_title = Some (ustr_of ''My Show''), m_season = Some [49],
          m_episode = None, m_resolution = None, m_video_codec = None,
          m_audio_codec = None, m_subtitle = None, m_remarks = None, bangumi_eps = None\<rparr>"

text \<open>A title database that answers every search with one record, whose localized
  title carries the marker of a second season (U+67D0 U+756A, a space, the marker).  The
  world counts the requests.\<close>

definition demo_title :: ustr where
  "demo_title = [26576, 30058, 32, DI, 20108, JI]"

definition demo_transport :: "nat transport" where
  "demo_transport req w =
     (case req of
        SearchSubject term \<Rightarrow>
          Response 200 (JDict [(ustr_of ''list'',
            JList [JDict [(ustr_of ''id'', JInt 7), (ustr_of ''name_cn'', JStr demo_title)]])])
      | SubjectDetails i \<Rightarrow>
          Response 200 (JDict [(ustr_of ''name_cn'', JStr demo_title), (ustr_of ''eps'', JInt 12)])
      | Episodes i \<Rightarrow> Response 200 (JDict [(ustr_of ''data'', JList [])]),
      Suc w)"

text \<open>The invariant of the cache: no query was handed to the client twice, and every
  query that was handed to it has an entry.\<close>

definition cache_inv :: "'w manager \<Rightarrow> bool" where
  "cache_inv st = (distinct (lookups st) \<and> set (lookups st) \<subseteq> dom (api_cache st))"

text \<open>The specification's reading of the season marker: the first place where the
  ordinal prefix, one of the ten numerals and the season sign follow each other gives the
  number of the numeral.\<close>

fun marker_value :: "ustr \<Rightarrow> int option" where
  "marker_value (a # b # c # rest) =
     (if a = DI \<and> b \<in> set cn_numerals \<and> c = JI then map_of cn_num_map [b]
      else marker_value (b # c # rest))"
| "marker_value _ = None"

text \<open>The results for a bracket with a season and no title, and for a name of
  separators only.\<close>

definition season_only_result :: media_info where
  "season_only_result = \<lparr>m_group = None, m_title = Some [], m_season = Some [50],
      m_episode = None, m_resolution = None, m_video_codec = None,
      m_audio_codec = None, m_subtitle = None, m_remarks = None, bangumi_eps = None\<rparr>"

definition dashes_result :: media_info where
  "dashes_result = \<lparr>m_group = None, m_title = Some unknown_title, m_season = Some [49],
      m_episode = None, m_resolution = None, m_video_codec = None,
      m_audio_codec = None, m_subtitle = None, m_remarks = None, bangumi_eps = None\<rparr>"

text \<open>Two files of one show, the record that the run makes of the first one, and the
  state of the manager after the run.\<close>

definition same_show :: "ustr list" where
  "same_show = [ustr_of ''Show A - 01'', ustr_of ''Show A - 02'']"

definition demo_record :: media_info where
  "demo_record = \<lparr>m_group = None, m_title = Some [26576, 30058], m_season = Some [50],
      m_episode = Some (ustr_of ''01''), m_resolution = None, m_video_codec = None,
      m_audio_codec = None, m_subtitle = None, m_remarks = None,
      bangumi_eps = Some (JInt 12)\<rparr>"

definition demo_final :: "nat manager" where
  "demo_final = \<lparr>api_cache = [ustr_of ''Show A'' \<mapsto>
                     Some \<lparr>name_cn = JStr demo_title, total_episodes = JInt 12\<rparr>],
                 lookups = [ustr_of ''Show A''], world = 3\<rparr>"

text \<open>The number that \<open>cn_num_map\<close> gives for group 1 of a match of the season
  marker.\<close>

definition found_value :: "(ustr \<times> rmatch \<times> ustr) option \<Rightarrow> int option" where
  "found_value r = (case r of None \<Rightarrow> None
     | Some (pre, m, post) \<Rightarrow> (case groups m of Some cn # _ \<Rightarrow> map_of cn_num_map cn | _ \<Rightarrow> None))"

text \<open>A rule that does not claim a bracket content: it is missing, empty, or finds
  nothing.\<close>

definition no_claim :: "searcher \<Rightarrow> pattern_set \<Rightarrow> ustr \<Rightarrow> string \<Rightarrow> bool" where
  "no_claim rs P content key =
     (case P key of None \<Rightarrow> True | Some pat \<Rightarrow> pat = [] \<or> rs pat content = Inr None)"

text \<open>A name with two source tags around a resolution tag.\<close>

definition bd_stem :: ustr where
  "bd_stem = ustr_of ''[BD][1080p][bd] Show - 03''"

definition bd_result :: media_info where
  "bd_result = \<lparr>m_group = None, m_title = Some (ustr_of ''Show''), m_season = Some [49],
      m_episode = Some (ustr_of ''03''), m_resolution = Some (ustr_of ''1080p''),
      m_video_codec = None, m_audio_codec = None, m_subtitle = None,
      m_remarks = Some (ustr_of ''BD, bd''), bangumi_eps = None\<rparr>"

text \<open>Its three blocks, and the state of the loop after the first two.\<close>

definition bd_block1 :: rmatch where
  "bd_block1 = Match (ustr_of ''[BD]'') [Some (ustr_of ''BD'')]"

definition bd_block2 :: rmatch where
  "bd_block2 = Match (ustr_of ''[1080p]'') [Some (ustr_of ''1080p'')]"

definition bd_block3 :: rmatch where
  "bd_block3 = Match (ustr_of ''[bd]'') [Some (ustr_of ''bd'')]"

definition bd_info2 :: info where
  "bd_info2 = empty_info\<lparr>resolution := Some (ustr_of ''1080p''), remarks := [ustr_of ''BD'']\<rparr>"

text \<open>The blocks and the result of the name with two resolution tags.\<close>

definition res_block1 :: rmatch where
  "res_block1 = Match (ustr_of ''[720p]'') [Some (ustr_of ''720p'')]"

definition res_block2 :: rmatch where
  "res_block2 = Match (ustr_of ''[1080p]'') [Some (ustr_of ''1080p'')]"

definition two_res_result :: media_info where
  "two_res_result = \<lparr>m_group = None, m_title = Some (ustr_of ''Show''), m_season = Some [50],
      m_episode = Some (ustr_of ''07''), m_resolution = Some (ustr_of ''720p''),
      m_video_codec = None, m_audio_codec = None, m_subtitle = None, m_remarks = None,
      bangumi_eps = None\<rparr>"

text \<open>The results for \<open>Show S02E7\<close> and, with an episode rule that takes a sign, for
  \<open>Show -5\<close>.\<close>

definition se_result :: media_info where
  "se_result = \<lparr>m_group = None, m_title = Some (ustr_of ''Show''), m_season = Some (ustr_of ''2''),
      m_episode = Some (ustr_of ''07''), m_resolution = None, m_video_codec = None,
      m_audio_codec = None, m_subtitle = None, m_remarks = None, bangumi_eps = None\<rparr>"

definition minus_result :: media_info where
  "minus_result = \<lparr>m_group = None, m_title = Some (ustr_of ''Show''), m_season = Some [49],
      m_episode = Some (ustr_of ''-5''), m_resolution = None, m_video_codec = None,
      m_audio_codec = None, m_subtitle = None, m_remarks = None, bangumi_eps = None\<rparr>"

text \<open>The table of the specification, written out: the ten numerals and the season
  strings they stand for.  \<open>marker_season\<close> reads a title from the left and gives the
  season string of the first marker: U+7B2C, a numeral of the table, U+5B63.\<close>

definition numeral_season :: "nat \<Rightarrow> ustr option" where
  "numeral_season = map_of
     [(19968, ustr_of ''1''), (20108, ustr_of ''2''), (19977, ustr_of ''3''),
      (22235, ustr_of ''4''), (20116, ustr_of ''5''), (20845, ustr_of ''6''),
      (19971, ustr_of ''7''), (20843, ustr_of ''8''), (20061, ustr_of ''9''),
      (21313, ustr_of ''10'')]"

fun marker_season :: "ustr \<Rightarrow> ustr option" where
  "marker_season (a # b # c # rest) =
     (if a = 31532 \<and> numeral_season b \<noteq> None \<and> c = 23395 then numeral_season b
      else marker_season (b # c # rest))"
| "marker_season _ = None"

text \<open>A block in full-width brackets, and a content that can stand in a block: it has no
  line feed and no closing bracket.\<close>

definition fw_block :: "ustr \<Rightarrow> ustr" where
  "fw_block content = LFW # content @ [RFW]"

definition clean_content :: "ustr \<Rightarrow> bool" where
  "clean_content content = (\<not> list_ex (\<lambda>c. c = 10 \<or> c = RBR \<or> c = RFW) content)"

definition no_opener :: "ustr \<Rightarrow> bool" where
  "no_opener s = (\<not> list_ex (\<lambda>c. c = LBR \<or> c = LFW) s)"

text \<open>The result for a resolution tag in full-width brackets in front of \<open>Show\<close>.\<close>

definition fw_res_result :: media_info where
  "fw_res_result = \<lparr>m_group = None, m_title = Some (ustr_of ''Show''), m_season = Some [49],
      m_episode = None, m_resolution = Some (ustr_of ''1080p''), m_video_codec = None,
      m_audio_codec = None, m_subtitle = None, m_remarks = None, bangumi_eps = None\<rparr>"

section \<open>Evaluation\<close>

lemma replicate_numeral_Cons: "replicate (numeral k) x = x # replicate (pred_numeral k) x"
  by (simp add: numeral_eq_Suc)

lemmas rx_defs = title_season_rx_def bracket_rx_def strip_rx_def sep_rx_def ustr_of_def
  seqs_def lit_def one_of_def LBR_def RBR_def LFW_def RFW_def is_space_def is_decimal_def
  dec_value_def digits1_def replicate_numeral_Cons

lemmas pf_defs = parse_filename_def title_season_step_def group_text_def group_def ebind_def
  py_strip_def re_finditer.simps re_sub.simps tech_keys_def match_value_def episode_step_def
  get_rule_def finish_def fallback_title_def unknown_title_def empty_info_def search_ic_def
  known_patterns_def py_int_opt_def py_int_def int_space_def format_02d_def py_str_def
  digits_of.simps

lemmas rule_defs = rule_res_def rule_codec_def rule_res_g_def rule_codec_g_def rule_se_def
  rule_ep_def scenario_rules_def scenario_rules_ep_def grouped_rules_def scenario_stem_def
  rule_src_def rule_signed_def source_rules_def signed_rules_def

lemmas api_defs = process_directory_def new_manager_def process_file_def resolve_def
  get_bangumi_details_def api_query_def get_details_for_scraping_def search_subject_def
  search_body_def make_request_def is_APIError_def build_details_def apply_details_def
  py_or_def unknown_cn_def down_transport_def empty_transport_def garbled_transport_def Let_def

lemmas demo_defs = demo_transport_def demo_title_def season_correction_def cn_season_rx_def
  clean_rx_def cn_numerals_def cn_num_map_def DI_def JI_def

section \<open>Properties of the matcher\<close>

text \<open>A successful match calls its continuation on a suffix of the subject.\<close>

lemma rep_lazy_SomeD:
  "rep_lazy cs mn mx s k = Some x \<Longrightarrow> \<exists>p s'. s = p @ s' \<and> k s' = Some x"
proof (induction s arbitrary: mn mx)
  case Nil
  then show ?case by (auto split: if_splits)
next
  case (Cons c s)
  show ?case
  proof (cases "(if mn = 0 then k (c # s) else None)")
    case (Some r)
    with Cons.prems have "k (c # s) = Some x" by (auto split: if_splits)
    then show ?thesis by (metis append_Nil)
  next
    case None
    with Cons.prems have "rep_lazy cs (mn - 1) (map_option (\<lambda>m. m - 1) mx) s k = Some x"
      by (auto split: if_splits)
    from Cons.IH[OF this] obtain p s' where "s = p @ s'" "k s' = Some x" by blast
    then have "c # s = (c # p) @ s'" by simp
    with \<open>k s' = Some x\<close> show ?thesis by blast
  qed
qed

lemma rep_greedy_SomeD:
  "rep_greedy cs mn mx s k = Some x \<Longrightarrow> \<exists>p s'. s = p @ s' \<and> k s' = Some x"
proof (induction s arbitrary: mn mx)
  case Nil
  then show ?case by (auto split: if_splits)
next
  case (Cons c s)
  show ?case
  proof (cases "rep_greedy cs (mn - 1) (map_option (\<lambda>m. m - 1) mx) s k = Some x")
    case True
    from Cons.IH[OF this] obtain p s' where "s = p @ s'" "k s' = Some x" by blast
    then have "c # s = (c # p) @ s'" by simp
    with \<open>k s' = Some x\<close> show ?thesis by blast
  next
    case False
    with Cons.prems have "k (c # s) = Some x"
      by (auto split: if_splits option.splits)
    then show ?thesis by (metis append_Nil)
  qed
qed

lemma mt_SomeD:
  "mt r s c k = Some x \<Longrightarrow> \<exists>p s' c'. s = p @ s' \<and> k s' c' = Some x"
proof (induction r arbitrary: s c k)
  case Eps
  then show ?case by (metis append_Nil mt.simps(1))
next
  case (Cls cs)
  then obtain a t where "s = a # t" "k t c = Some x"
    by (auto split: list.splits if_splits)
  then have "s = [a] @ t" by simp
  with \<open>k t c = Some x\<close> show ?case by blast
next
  case (Rep g mn mx cs)
  show ?case
  proof (cases g)
    case True
    with Rep have "rep_greedy cs mn mx s (\<lambda>s'. k s' c) = Some x" by simp
    from rep_greedy_SomeD[OF this] show ?thesis by blast
  next
    case False
    with Rep have "rep_lazy cs mn mx s (\<lambda>s'. k s' c) = Some x" by simp
    from rep_lazy_SomeD[OF this] show ?thesis by blast
  qed
next
  case (Grp n r)
  from Grp.IH[OF Grp.prems[simplified]] show ?case by blast
next
  case (Seq a b)
  from Seq.IH(1)[OF Seq.prems[simplified]] obtain p s' c' where
    1: "s = p @ s'" and 2: "mt b s' c' k = Some x" by blast
  from Seq.IH(2)[OF 2] obtain q s'' c'' where "s' = q @ s''" "k s'' c'' = Some x" by blast
  with 1 have "s = (p @ q) @ s''" by simp
  with \<open>k s'' c'' = Some x\<close> show ?case by blast
qed

lemma re_search_SomeD:
  "re_search p s = Some (pre, m, post) \<Longrightarrow> s = pre @ drop (length pre) s \<and> match_at p (drop (length pre) s) = Some (m, post)"
proof (induction s arbitrary: pre)
  case Nil
  then show ?case by (auto split: option.splits)
next
  case (Cons x xs)
  show ?case
  proof (cases "match_at p (x # xs)")
    case (Some r)
    with Cons.prems show ?thesis by (cases r) auto
  next
    case None
    with Cons.prems obtain pre' where "re_search p xs = Some (pre', m, post)" "pre = x # pre'"
      by (auto split: option.splits)
    with Cons.IH[of pre'] show ?thesis by auto
  qed
qed

lemma seqs_Cons: "seqs (r # rs) = Seq r (seqs rs)"
  by (simp add: seqs_def)

lemma mt_seqs_last:
  "mt (seqs (rs @ [lit a])) s c k = Some x \<Longrightarrow> \<exists>p s' c'. s = p @ a # s' \<and> k s' c' = Some x"
proof (induction rs arbitrary: s c)
  case Nil
  then show ?case
    by (auto simp: seqs_def lit_def split: list.splits if_splits)
next
  case (Cons r rs)
  then have "mt r s c (\<lambda>s' c'. mt (seqs (rs @ [lit a])) s' c' k) = Some x"
    by (simp add: seqs_Cons)
  from mt_SomeD[OF this] obtain p s' c' where
    1: "s = p @ s'" and 2: "mt (seqs (rs @ [lit a])) s' c' k = Some x" by blast
  from Cons.IH[OF 2] obtain q s'' c'' where "s' = q @ a # s''" "k s'' c'' = Some x" by blast
  with 1 have "s = (p @ q) @ a # s''" by simp
  with \<open>k s'' c'' = Some x\<close> show ?case by blast
qed

lemma mt_seqs_first:
  "mt (seqs (lit a # rs)) s c k = Some x \<Longrightarrow> \<exists>t. s = a # t"
  by (auto simp: seqs_Cons lit_def split: list.splits if_splits)

lemma match_at_delimited:
  assumes "match_at (Prog (seqs (lit a # rs @ [lit b])) n) s = Some (m, post)" and "a \<noteq> b"
  shows "\<exists>mid. whole m = a # mid @ [b] \<and> s = whole m @ post"
proof -
  let ?k = "\<lambda>s' c. Some (Match (take (length s - length s') s) c, s')"
  have 0: "mt (seqs ((lit a # rs) @ [lit b])) s (replicate n None) ?k = Some (m, post)"
    using assms by simp
  from mt_seqs_last[OF 0] obtain p s' c' where
    1: "s = p @ b # s'" and 2: "?k s' c' = Some (m, post)" by blast
  from 0 have "\<exists>t. s = a # t" using mt_seqs_first[of a "rs @ [lit b]"] by simp
  then obtain t where 3: "s = a # t" by blast
  from 2 have 4: "post = s'" and 5: "whole m = take (length s - length s') s" by auto
  from 1 5 have 6: "whole m = p @ [b]" by simp
  show ?thesis
  proof (cases p)
    case Nil
    with 1 3 have "a = b" by simp
    with assms(2) show ?thesis by simp
  next
    case (Cons y ys)
    with 1 3 have "y = a" by simp
    with Cons 6 1 4 show ?thesis by simp
  qed
qed

lemma title_season_delimited:
  assumes "re_search title_season_rx s = Some (pre, m, post)"
  shows "\<exists>mid. whole m = LBR # mid @ [RBR] \<and> s = pre @ whole m @ post"
proof -
  from re_search_SomeD[OF assms] have
    1: "s = pre @ drop (length pre) s" and
    2: "match_at title_season_rx (drop (length pre) s) = Some (m, post)" by auto
  have ne: "LBR \<noteq> RBR" by (simp add: LBR_def RBR_def)
  have eq: "title_season_rx = Prog (seqs (lit LBR #
       [Grp 1 (Rep False 0 None (CSet True [CChar RBR])),
        Rep True 0 None (CSet False [CSpace]),
        one_of [83, 115, 383], one_of [69, 101], one_of [65, 97], one_of [83, 115, 383],
        one_of [79, 111], one_of [78, 110],
        Rep True 0 None (CSet False [CSpace]),
        Grp 2 (Rep True 1 None (CSet False [CDigit]))] @ [lit RBR])) 2"
    by (simp add: title_season_rx_def)
  from match_at_delimited[OF 2[unfolded eq] ne]
  obtain mid where "whole m = LBR # mid @ [RBR]" "drop (length pre) s = whole m @ post"
    by blast
  with 1 show ?thesis by metis
qed

lemma title_season_no_bracket:
  "LBR \<notin> set s \<Longrightarrow> re_search title_season_rx s = None"
  by (induction s) (auto simp: title_season_rx_def seqs_Cons lit_def)

lemma bracket_no_open:
  "LBR \<notin> set s \<Longrightarrow> LFW \<notin> set s \<Longrightarrow> re_search bracket_rx s = None"
  by (induction s) (auto simp: bracket_rx_def seqs_Cons one_of_def)

lemma strip_no_open:
  "LBR \<notin> set s \<Longrightarrow> LFW \<notin> set s \<Longrightarrow> re_search strip_rx s = None"
  by (induction s) (auto simp: strip_rx_def seqs_Cons one_of_def)

section \<open>Properties of the stages of \<open>parse_filename\<close>\<close>

text \<open>The loops over the brackets and the rules change nothing but the technical
  fields and the remarks; the other stages leave those alone.\<close>

lemma get_set_field:
  "get_field (set_field i f v) g = (if g = f \<and> f \<noteq> FRemarks then Some v else get_field i g)"
  by (cases f; cases g) simp_all

lemma set_field_frame:
  "title (set_field i f v) = title i \<and> season (set_field i f v) = season i \<and>
   episode (set_field i f v) = episode i"
  by (cases f) simp_all

lemma set_field_remarks:
  "\<exists>more. remarks (set_field i f v) = remarks i @ more"
  by (cases f) simp_all

lemma try_keys_keeps:
  assumes "try_keys rs P content ks i = Inr (i', b)"
  shows "(get_field i f = Some v \<longrightarrow> get_field i' f = Some v) \<and>
         (\<exists>more. remarks i' = remarks i @ more) \<and>
         title i' = title i \<and> season i' = season i \<and> episode i' = episode i"
  using assms
proof (induction ks)
  case Nil
  then show ?case by simp
next
  case (Cons kf ks)
  obtain key field where kf: "kf = (key, field)" by (cases kf)
  show ?case
  proof (cases "try_keys rs P content ks i = Inr (i', b)")
    case True
    then show ?thesis by (rule Cons.IH)
  next
    case False
    with Cons.prems kf obtain pat m val where
      "rs pat content = Inr (Some m)" "match_value m = Inr val" and
      i': "i' = (if key = ''source'' then i\<lparr>remarks := remarks i @ [val]\<rparr>
                 else if get_field i field = None then set_field i field val else i)"
      by (auto split: option.splits if_splits sum.splits)
    show ?thesis
      using set_field_remarks[of i field val]
      by (auto simp: i' get_set_field set_field_frame) (cases f; simp)+
  qed
qed

lemma tech_loop_append:
  "tech_loop rs P (bs1 @ bs2) st =
     (case tech_loop rs P bs1 st of Inl e \<Rightarrow> Inl e | Inr st1 \<Rightarrow> tech_loop rs P bs2 st1)"
proof (induction bs1 arbitrary: st)
  case Nil
  then show ?case by simp
next
  case (Cons b bs1)
  obtain i t where st: "st = (i, t)" by (cases st)
  show ?case
    by (simp add: st Cons.IH split: sum.splits option.splits prod.splits)
qed

lemma tech_loop_keeps:
  assumes "tech_loop rs P bs (i, t) = Inr (i', t')"
  shows "(get_field i f = Some v \<longrightarrow> get_field i' f = Some v) \<and>
         (\<exists>more. remarks i' = remarks i @ more) \<and>
         title i' = title i \<and> season i' = season i \<and> episode i' = episode i"
  using assms
proof (induction bs arbitrary: i t)
  case Nil
  then show ?case by simp
next
  case (Cons b bs)
  from Cons.prems obtain content i1 m where
    1: "try_keys rs P content tech_keys i = Inr (i1, m)" and
    2: "tech_loop rs P bs (i1, if m then remove_first (whole b) t else t) = Inr (i', t')"
    by (auto split: sum.splits option.splits prod.splits)
  from try_keys_keeps[OF 1, of f v] Cons.IH[OF 2]
  show ?case by (metis append.assoc)
qed

lemma get_field_frame [simp]:
  "get_field (i\<lparr>episode := e\<rparr>) f = get_field i f"
  "get_field (i\<lparr>season := e\<rparr>) f = get_field i f"
  "get_field (i\<lparr>title := e\<rparr>) f = get_field i f"
  by (cases f; simp)+

lemma title_season_step_frame:
  "title_season_step stem i = Inr (i', w) \<Longrightarrow>
     episode i' = episode i \<and> remarks i' = remarks i \<and> (\<forall>f. get_field i' f = get_field i f)"
  by (auto simp: title_season_step_def ebind_def split: option.splits sum.splits prod.splits)

lemma episode_step_frame:
  "episode_step rs P (i, w) = Inr (i', w') \<Longrightarrow>
     remarks i' = remarks i \<and> (\<forall>f. get_field i' f = get_field i f)"
  by (auto simp: episode_step_def ebind_def split: option.splits sum.splits if_splits)

lemma result_field_finish:
  "result_field (finish (i, w)) f = get_field i f"
  by (cases f) (simp_all add: finish_def)

lemma parse_filename_stages:
  assumes "parse_filename rs P stem = Inr mi"
  shows "\<exists>i0 w0 i2 w2 i3 w3.
    title_season_step stem empty_info = Inr (i0, w0) \<and>
    tech_loop rs P (re_finditer bracket_rx w0) (i0, w0) = Inr (i2, w2) \<and>
    episode_step rs P (i2, w2) = Inr (i3, w3) \<and>
    mi = finish (i3, w3)"
  using assms
  by (auto simp: parse_filename_def ebind_def split: sum.splits)

text \<open>The decimal digits and the padded format.\<close>

lemma digits_of_small: "n < 10 \<Longrightarrow> digits_of n = [48 + n]"
  by (simp add: digits_of.simps)

lemma digits_of_length: "0 < length (digits_of n)"
  by (subst digits_of.simps) simp

lemma digits_of_two: "10 \<le> n \<Longrightarrow> n < 100 \<Longrightarrow> digits_of n = [48 + n div 10, 48 + n mod 10]"
  by (subst digits_of.simps) (simp add: digits_of_small)

lemma digits_of_long: "100 \<le> n \<Longrightarrow> 2 < length (digits_of n)"
proof -
  assume n: "100 \<le> n"
  have 1: "digits_of n = digits_of (n div 10) @ [48 + n mod 10]"
    using n by (subst digits_of.simps) simp
  have "10 \<le> n div 10" using n by simp
  then have 2: "digits_of (n div 10) = digits_of (n div 10 div 10) @ [48 + n div 10 mod 10]"
    by (subst digits_of.simps) simp
  show ?thesis using digits_of_length[of "n div 10 div 10"] by (simp add: 1 2)
qed

lemma format_02d_cases:
  "2 \<le> length (format_02d n) \<and>
   (0 \<le> n \<and> n < 100 \<longrightarrow> format_02d n = [48 + nat n div 10, 48 + nat n mod 10]) \<and>
   (100 \<le> n \<longrightarrow> format_02d n = digits_of (nat n) \<and> 2 < length (format_02d n)) \<and>
   (n < 0 \<longrightarrow> format_02d n = 45 # digits_of (nat (- n)))"
proof -
  have 1: "2 \<le> length (format_02d n)"
    using digits_of_length[of "nat n"] digits_of_length[of "nat (- n)"]
    by (auto simp: format_02d_def)
  have 2: "format_02d n = [48 + nat n div 10, 48 + nat n mod 10]" if a: "0 \<le> n \<and> n < 100"
  proof (cases "nat n < 10")
    case True
    then show ?thesis using a by (simp add: format_02d_def digits_of_small)
  next
    case False
    then have "10 \<le> nat n" "nat n < 100" using a by auto
    then show ?thesis using a by (simp add: format_02d_def digits_of_two)
  qed
  have 3: "format_02d n = digits_of (nat n) \<and> 2 < length (format_02d n)" if a: "100 \<le> n"
  proof -
    from a have "2 < length (digits_of (nat n))" by (simp add: digits_of_long)
    then show ?thesis using a by (simp add: format_02d_def)
  qed
  have 4: "format_02d n = 45 # digits_of (nat (- n))" if "n < 0"
    using that digits_of_length[of "nat (- n)"]
    by (cases "digits_of (nat (- n))") (simp_all add: format_02d_def)
  from 1 2 3 4 show ?thesis by blast
qed

lemma re_sub_no_match: "re_search p s = None \<Longrightarrow> re_sub p repl s = s"
  by (simp add: re_sub.simps)

lemma re_finditer_no_match: "re_search p s = None \<Longrightarrow> re_finditer p s = []"
  by (simp add: re_finditer.simps)

text \<open>The cache: its invariant is kept by every step of the run, and its entries
  never change.\<close>

lemma get_bangumi_details_hit:
  "api_cache st (api_query t s) = Some d \<Longrightarrow> get_bangumi_details fetch t s st = (Inr d, st)"
  by (simp add: get_bangumi_details_def)

lemma get_bangumi_details_stores:
  "get_bangumi_details fetch t s st = (Inr d, st1) \<Longrightarrow> api_cache st1 (api_query t s) = Some d"
  by (auto simp: get_bangumi_details_def Let_def split: option.splits prod.splits sum.splits)

lemma get_bangumi_details_inv:
  assumes "cache_inv st" and "get_bangumi_details fetch t s st = (r, st')"
  shows "distinct (lookups st') \<and> (\<forall>x. r = Inr x \<longrightarrow> cache_inv st') \<and>
         (\<forall>q d. api_cache st q = Some d \<longrightarrow> api_cache st' q = Some d)"
proof (cases "api_cache st (api_query t s)")
  case (Some d)
  with assms show ?thesis by (auto simp: get_bangumi_details_def cache_inv_def)
next
  case None
  then have "api_query t s \<notin> set (lookups st)"
    using assms(1) by (auto simp: cache_inv_def)
  with None assms show ?thesis
    by (auto simp: get_bangumi_details_def Let_def cache_inv_def
             split: prod.splits sum.splits)
qed

lemma resolve_inv:
  assumes "cache_inv st" and "resolve fetch mi st = (r, st')"
  shows "distinct (lookups st') \<and> (\<forall>x. r = Inr x \<longrightarrow> cache_inv st') \<and>
         (\<forall>q d. api_cache st q = Some d \<longrightarrow> api_cache st' q = Some d)"
proof (cases "\<exists>t. m_title mi = Some t \<and> t \<noteq> [] \<and> t \<noteq> unknown_title")
  case False
  with assms have "st' = st" by (auto simp: resolve_def split: option.splits)
  with assms(1) show ?thesis by (simp add: cache_inv_def)
next
  case True
  then obtain t where t: "m_title mi = Some t" "t \<noteq> []" "t \<noteq> unknown_title" by blast
  obtain r0 st0 where g: "get_bangumi_details fetch t (m_season mi) st = (r0, st0)"
    by (cases "get_bangumi_details fetch t (m_season mi) st")
  from assms(2) t g have st': "st' = st0"
    by (auto simp: resolve_def split: sum.splits option.splits)
  from assms(2) t g have "\<And>x. r = Inr x \<Longrightarrow> \<exists>y. r0 = Inr y"
    by (auto simp: resolve_def split: sum.splits option.splits)
  with get_bangumi_details_inv[OF assms(1) g] show ?thesis
    unfolding st' by blast
qed

lemma process_file_inv:
  assumes "cache_inv st" and "process_file rs fetch P stem st = (r, st')"
  shows "distinct (lookups st') \<and> (\<forall>x. r = Inr x \<longrightarrow> cache_inv st') \<and>
         (\<forall>q d. api_cache st q = Some d \<longrightarrow> api_cache st' q = Some d)"
proof (cases "parse_filename rs P stem")
  case (Inl e)
  with assms show ?thesis by (auto simp: process_file_def cache_inv_def)
next
  case (Inr mi)
  with assms(2) have "resolve fetch mi st = (r, st')" by (simp add: process_file_def)
  from resolve_inv[OF assms(1) this] show ?thesis .
qed

lemma process_files_distinct:
  "cache_inv st \<Longrightarrow> distinct (lookups (snd (process_files rs fetch P fs st)))"
proof (induction fs arbitrary: st)
  case Nil
  then show ?case by (simp add: cache_inv_def)
next
  case (Cons f fs)
  obtain r st' where pf: "process_file rs fetch P f st = (r, st')"
    by (cases "process_file rs fetch P f st")
  show ?case
  proof (cases r)
    case (Inl e)
    with pf process_file_inv[OF Cons.prems pf] show ?thesis by simp
  next
    case (Inr mi)
    with process_file_inv[OF Cons.prems pf] have "cache_inv st'" by simp
    from Cons.IH[OF this] have "distinct (lookups (snd (process_files rs fetch P fs st')))" .
    with pf Inr show ?thesis
      by (cases "process_files rs fetch P fs st'") (auto split: prod.splits)
  qed
qed

text \<open>A run over two files of one show, with the database that finds a record.\<close>

lemma demo_run:
  "process_directory search_ic (get_details_for_scraping demo_transport) grouped_rules
     same_show 0 =
   ((None, [demo_record, demo_record\<lparr>m_episode := Some (ustr_of ''02'')\<rparr>]), demo_final)"
  by (simp add: api_defs pf_defs rx_defs rule_defs demo_defs same_show_def demo_record_def
      demo_final_def)

text \<open>The pattern of the season marker finds what \<open>marker_value\<close> describes.\<close>

lemma in_cset_chars: "list_ex (\<lambda>i. in_item i c) (map CChar xs) = (c \<in> set xs)"
  by (induction xs) auto

lemma match_at_cn_season:
  "match_at cn_season_rx (a # b # c # rest) =
     (if a = DI \<and> b \<in> set cn_numerals \<and> c = JI
      then Some (Match [a, b, c] [Some [b]], rest) else None)"
  by (simp add: cn_season_rx_def seqs_def lit_def one_of_def in_cset_chars)

lemma match_at_cn_season_short:
  "match_at cn_season_rx [] = None"
  "match_at cn_season_rx [a] = None"
  "match_at cn_season_rx [a, b] = None"
  by (simp_all add: cn_season_rx_def seqs_def lit_def one_of_def in_cset_chars)

lemma numeral_mapped: "b \<in> set cn_numerals \<Longrightarrow> \<exists>n. map_of cn_num_map [b] = Some n \<and> 1 \<le> n \<and> n \<le> 10"
  by (auto simp: cn_numerals_def cn_num_map_def)

lemma search_cn_season: "found_value (re_search cn_season_rx t) = marker_value t"
proof (induction t rule: marker_value.induct)
  case (1 a b c rest)
  show ?case
  proof (cases "a = DI \<and> b \<in> set cn_numerals \<and> c = JI")
    case True
    then show ?thesis by (simp add: match_at_cn_season found_value_def)
  next
    case False
    with 1 show ?thesis
      by (auto simp: match_at_cn_season found_value_def split: option.splits)
  qed
qed (simp_all add: match_at_cn_season_short found_value_def)

lemma season_correction_marker:
  "season_correction s t =
     (if s = Some [49] then (case marker_value t of None \<Rightarrow> s | Some n \<Rightarrow> Some (py_str n))
      else s)"
proof -
  have "marker_value t = found_value (re_search cn_season_rx t)"
    by (simp add: search_cn_season)
  then show ?thesis
    by (auto simp: season_correction_def found_value_def
             split: option.splits list.splits prod.splits)
qed

lemma marker_value_SomeD:
  "marker_value t = Some n \<Longrightarrow>
     1 \<le> n \<and> n \<le> 10 \<and> (\<exists>pre c post. t = pre @ [DI, c, JI] @ post \<and> map_of cn_num_map [c] = Some n)"
proof (induction t rule: marker_value.induct)
  case (1 a b c rest)
  show ?case
  proof (cases "a = DI \<and> b \<in> set cn_numerals \<and> c = JI")
    case True
    with "1.prems" have m: "map_of cn_num_map [b] = Some n" by simp
    with numeral_mapped[of b] True have "1 \<le> n \<and> n \<le> 10" by auto
    moreover have "a # b # c # rest = [] @ [DI, b, JI] @ rest" using True by simp
    ultimately show ?thesis using m by blast
  next
    case False
    with "1.prems" have "marker_value (b # c # rest) = Some n" by auto
    from "1.IH"[OF False this] obtain pre x post where
      "1 \<le> n" "n \<le> 10" "b # c # rest = pre @ [DI, x, JI] @ post" "map_of cn_num_map [x] = Some n"
      by blast
    then have "a # b # c # rest = (a # pre) @ [DI, x, JI] @ post" by simp
    with \<open>1 \<le> n\<close> \<open>n \<le> 10\<close> \<open>map_of cn_num_map [x] = Some n\<close> show ?thesis by blast
  qed
qed simp_all

lemma marker_value_found:
  "c \<in> set cn_numerals \<Longrightarrow> marker_value (pre @ [DI, c, JI] @ post) \<noteq> None"
proof (induction pre)
  case Nil
  with numeral_mapped[of c] show ?case by auto
next
  case (Cons x pre)
  obtain y z rest where r: "pre @ [DI, c, JI] @ post = y # z # rest"
    by (cases pre; cases "tl pre") auto
  show ?case
  proof (cases "x = DI \<and> y \<in> set cn_numerals \<and> z = JI")
    case True
    with numeral_mapped[of y] show ?thesis using r by (auto simp del: append.simps simp: append_Cons)
  next
    case False
    with Cons r show ?thesis by (auto simp del: append.simps simp: append_Cons)
  qed
qed

text \<open>The empty pattern, which stands for a missing episode rule, matches every
  text.\<close>

lemma search_empty_pattern: "search_ic [] w = Inr (Some (Match [] []))"
  by (cases w) (simp_all add: search_ic_def known_patterns_def)

lemma episode_step_no_rules:
  "episode i = None \<Longrightarrow> episode_step search_ic Map.empty (i, w) = Inl IndexError"
  by (simp add: episode_step_def get_rule_def search_empty_pattern ebind_def group_def)

lemma no_rules_raise: "\<exists>e. parse_filename search_ic Map.empty stem = Inl e"
proof (cases "title_season_step stem empty_info")
  case (Inl e)
  then show ?thesis by (simp add: parse_filename_def ebind_def)
next
  case (Inr st1)
  obtain i0 w0 where st1: "st1 = (i0, w0)" by (cases st1)
  from title_season_step_frame[OF Inr[unfolded st1]] have e0: "episode i0 = None"
    by (simp add: empty_info_def)
  show ?thesis
  proof (cases "tech_loop search_ic Map.empty (re_finditer bracket_rx w0) (i0, w0)")
    case (Inl e)
    with Inr st1 show ?thesis by (simp add: parse_filename_def ebind_def)
  next
    case (Inr st2)
    obtain i2 w2 where st2: "st2 = (i2, w2)" by (cases st2)
    from tech_loop_keeps[OF Inr[unfolded st2]] e0 have "episode i2 = None" by simp
    from episode_step_no_rules[OF this] \<open>title_season_step stem empty_info = Inr st1\<close> st1 Inr st2
    show ?thesis by (simp add: parse_filename_def ebind_def)
  qed
qed

text \<open>One bracket of the loop: the first rule in the order of \<open>tech_keys\<close> that
  finds something claims the bracket.\<close>

lemma try_keys_skip:
  "list_all (\<lambda>(k, f). no_claim rs P content k) pre \<Longrightarrow>
     try_keys rs P content (pre @ ks) i = try_keys rs P content ks i"
  by (induction pre) (auto simp: no_claim_def split: option.splits)

lemma try_keys_hit:
  assumes "list_all (\<lambda>(k, f). no_claim rs P content k) pre"
      and "P key = Some pat" and "pat \<noteq> []" and "rs pat content = Inr (Some m)"
      and "match_value m = Inr x"
  shows "try_keys rs P content (pre @ (key, field) # post) i =
           Inr (if key = ''source'' then i\<lparr>remarks := remarks i @ [x]\<rparr>
                else if get_field i field = None then set_field i field x else i, True)"
  using assms by (simp add: try_keys_skip)

lemma tech_loop_snoc:
  assumes "tech_loop rs P bs st = Inr (i1, w1)" and "group b 1 = Inr (Some content)"
      and "try_keys rs P content tech_keys i1 = Inr (i', True)"
  shows "tech_loop rs P (bs @ [b]) st = Inr (i', remove_first (whole b) w1)"
  using assms by (simp add: tech_loop_append)

lemmas bd_defs = bd_stem_def bd_result_def bd_block1_def bd_block2_def bd_block3_def
  bd_info2_def res_block1_def res_block2_def two_res_result_def two_res_stem_def

text \<open>Where the episode comes from.\<close>

lemma episode_step_source:
  assumes "episode_step rs P (i, w) = Inr (i', w')" and "episode i = None"
      and "episode i' = Some e"
  shows "\<exists>m raw n.
           ((rs (get_rule P ''season_episode'') w = Inr (Some m) \<and> group m 2 = Inr (Some raw)) \<or>
            (rs (get_rule P ''season_episode'') w = Inr None \<and>
             rs (get_rule P ''episode'') w = Inr (Some m) \<and> group m 1 = Inr (Some raw))) \<and>
           py_int raw = Inr n \<and> e = format_02d n"
  using assms
  by (auto simp: episode_step_def ebind_def py_int_opt_def
           split: option.splits sum.splits if_splits)

text \<open>The season correction against the table of the specification.\<close>

lemma numeral_season_table:
  "numeral_season b =
     (if b \<in> set cn_numerals then map_option py_str (map_of cn_num_map [b]) else None)"
  by (simp add: numeral_season_def cn_numerals_def cn_num_map_def py_str_def digits_of.simps
        ustr_of_def)

lemma marker_season_value: "marker_season t = map_option py_str (marker_value t)"
proof (induction t rule: marker_value.induct)
  case (1 a b c rest)
  show ?case
  proof (cases "b \<in> set cn_numerals")
    case True
    with numeral_mapped[of b] obtain n where "map_of cn_num_map [b] = Some n" by blast
    with True 1 show ?thesis
      by (auto simp: numeral_season_table DI_def JI_def)
  next
    case False
    with 1 show ?thesis by (auto simp: numeral_season_table DI_def JI_def)
  qed
qed simp_all

lemma season_correction_season:
  "season_correction s t =
     (if s = Some [49] then (case marker_season t of None \<Rightarrow> s | Some str \<Rightarrow> Some str)
      else s)"
  by (simp add: season_correction_marker marker_season_value split: option.splits)

lemma marker_season_first:
  "marker_season t = Some str \<Longrightarrow>
     \<exists>pre c post. t = pre @ [31532, c, 23395] @ post \<and> numeral_season c = Some str \<and>
       (\<forall>pre' c' post'. t = pre' @ [31532, c', 23395] @ post' \<and> numeral_season c' \<noteq> None
           \<longrightarrow> length pre \<le> length pre')"
proof (induction t rule: marker_season.induct)
  case (1 a b c rest)
  show ?case
  proof (cases "a = 31532 \<and> numeral_season b \<noteq> None \<and> c = 23395")
    case True
    with "1.prems" have "numeral_season b = Some str" by simp
    moreover have "a # b # c # rest = [] @ [31532, b, 23395] @ rest" using True by simp
    ultimately show ?thesis by (metis list.size(3) le0)
  next
    case False
    with "1.prems" have "marker_season (b # c # rest) = Some str" by auto
    from "1.IH"[OF False this] obtain pre x post where
      d: "b # c # rest = pre @ [31532, x, 23395] @ post" and n: "numeral_season x = Some str" and
      mn: "\<forall>pre' c' post'. b # c # rest = pre' @ [31532, c', 23395] @ post' \<and>
             numeral_season c' \<noteq> None \<longrightarrow> length pre \<le> length pre'" by blast
    have "length (a # pre) \<le> length pre'"
      if h: "a # b # c # rest = pre' @ [31532, c', 23395] @ post'" "numeral_season c' \<noteq> None"
      for pre' c' post'
    proof (cases pre')
      case Nil
      with h False show ?thesis by simp
    next
      case (Cons y ys)
      with h have "b # c # rest = ys @ [31532, c', 23395] @ post'" by simp
      with mn h(2) have "length pre \<le> length ys" by blast
      with Cons show ?thesis by simp
    qed
    moreover from d have "a # b # c # rest = (a # pre) @ [31532, x, 23395] @ post" by simp
    ultimately show ?thesis using n by blast
  qed
qed simp_all

lemma marker_season_found:
  "numeral_season c \<noteq> None \<Longrightarrow> marker_season (pre @ [31532, c, 23395] @ post) \<noteq> None"
proof (induction pre)
  case Nil
  then show ?case by auto
next
  case (Cons x pre)
  obtain y z rest where r: "pre @ [31532, c, 23395] @ post = y # z # rest"
    by (cases pre; cases "tl pre") auto
  show ?case
  proof (cases "x = 31532 \<and> numeral_season y \<noteq> None \<and> z = 23395")
    case True
    then show ?thesis using r by (auto simp del: append.simps simp: append_Cons)
  next
    case False
    with Cons r show ?thesis by (auto simp del: append.simps simp: append_Cons)
  qed
qed

lemma season_table:
  "map (\<lambda>c. season_correction (Some [49]) [31532, c, 23395])
       [19968, 20108, 19977, 22235, 20116, 20845, 19971, 20843, 20061, 21313] =
     [Some (ustr_of ''1''), Some (ustr_of ''2''), Some (ustr_of ''3''), Some (ustr_of ''4''),
      Some (ustr_of ''5''), Some (ustr_of ''6''), Some (ustr_of ''7''), Some (ustr_of ''8''),
      Some (ustr_of ''9''), Some (ustr_of ''10'')]"
  by (simp add: demo_defs rx_defs py_str_def digits_of.simps)

text \<open>Blocks in full-width brackets: the pattern of the blocks finds them, the
  pattern of the fall-back strips them, and \<open>parse_filename\<close> treats them as it treats
  the blocks in ASCII brackets.\<close>

lemma clean_contentD:
  "clean_content content \<Longrightarrow> x \<in> set content \<Longrightarrow> x \<noteq> 10 \<and> x \<noteq> RBR \<and> x \<noteq> RFW"
  by (auto simp: clean_content_def list_ex_iff)

lemma no_openerD: "no_opener s \<Longrightarrow> LBR \<notin> set s \<and> LFW \<notin> set s"
  by (auto simp: no_opener_def list_ex_iff)

lemma lazy_block_aux:
  assumes "\<And>x. x \<in> set content \<Longrightarrow> x \<noteq> 10 \<and> \<not> p x" and "p cl"
      and "G (cl # post) post \<noteq> None"
  shows "rep_lazy (CSet True [CChar 10]) 0 None (content @ cl # post)
           (\<lambda>s'. case s' of [] \<Rightarrow> None | x # xs \<Rightarrow> if p x then G s' xs else None) =
         G (cl # post) post"
  using assms by (induction content) auto

lemma match_at_bracket_fw:
  assumes "clean_content content"
  shows "match_at bracket_rx (LFW # content @ RFW # post) =
           Some (Match (LFW # content @ [RFW]) [Some content], post)"
  apply (simp add: bracket_rx_def seqs_def one_of_def del: in_cset.simps)
  apply (subst lazy_block_aux)
  using clean_contentD[OF assms] apply (auto simp: RBR_def RFW_def)
  done

lemma match_at_strip_fw:
  assumes "clean_content content"
  shows "match_at strip_rx (LFW # content @ RFW # post) =
           Some (Match (LFW # content @ [RFW]) [], post)"
  apply (simp add: strip_rx_def seqs_def one_of_def del: in_cset.simps)
  apply (subst lazy_block_aux)
  using clean_contentD[OF assms] apply (auto simp: RBR_def RFW_def)
  done

lemma re_search_skip:
  assumes "\<And>x xs. x \<in> set pre \<Longrightarrow> match_at p (x # xs) = None"
      and "match_at p (y # ys) = Some (m, post)"
  shows "re_search p (pre @ y # ys) = Some (pre, m, post)"
  using assms by (induction pre) auto

lemma match_at_not_opener:
  "x \<noteq> LBR \<Longrightarrow> x \<noteq> LFW \<Longrightarrow> match_at bracket_rx (x # xs) = None"
  "x \<noteq> LBR \<Longrightarrow> x \<noteq> LFW \<Longrightarrow> match_at strip_rx (x # xs) = None"
  by (simp_all add: bracket_rx_def strip_rx_def seqs_def one_of_def)

lemma re_search_fw_block:
  assumes "no_opener pre" and "clean_content content"
  shows "re_search bracket_rx (pre @ fw_block content @ post) =
           Some (pre, Match (fw_block content) [Some content], post)"
    and "re_search strip_rx (pre @ fw_block content @ post) =
           Some (pre, Match (fw_block content) [], post)"
proof -
  have 1: "match_at bracket_rx (x # xs) = None" "match_at strip_rx (x # xs) = None"
    if "x \<in> set pre" for x xs
    using no_openerD[OF assms(1)] that by (auto intro: match_at_not_opener)
  have e: "pre @ fw_block content @ post = pre @ LFW # (content @ RFW # post)"
    by (simp add: fw_block_def)
  show "re_search bracket_rx (pre @ fw_block content @ post) =
           Some (pre, Match (fw_block content) [Some content], post)"
    unfolding e using 1(1) match_at_bracket_fw[OF assms(2), of post]
    by (simp add: re_search_skip fw_block_def)
  show "re_search strip_rx (pre @ fw_block content @ post) =
           Some (pre, Match (fw_block content) [], post)"
    unfolding e using 1(2) match_at_strip_fw[OF assms(2), of post]
    by (simp add: re_search_skip fw_block_def)
qed

lemma fw_block_nonempty [simp]: "fw_block content \<noteq> []"
  by (simp add: fw_block_def)

lemma fw_block_found:
  assumes "no_opener pre" and "clean_content content"
  shows "re_finditer bracket_rx (pre @ fw_block content @ post) =
           Match (fw_block content) [Some content] # re_finditer bracket_rx post"
  by (subst re_finditer.simps) (simp add: re_search_fw_block[OF assms])

lemma fw_block_stripped:
  assumes "no_opener pre" and "clean_content content" and "no_opener post"
  shows "fallback_title (pre @ fw_block content @ post) = plain_title (pre @ post)"
proof -
  have "re_sub strip_rx [] (pre @ fw_block content @ post) = pre @ re_sub strip_rx [] post"
    by (subst re_sub.simps) (simp add: re_search_fw_block[OF assms(1,2)])
  also have "re_sub strip_rx [] post = post"
    using no_openerD[OF assms(3)] by (simp add: re_sub_no_match strip_no_open)
  finally show ?thesis by (simp add: fallback_title_def plain_title_def)
qed

lemma remove_first_prefix: "old \<noteq> [] \<Longrightarrow> remove_first old (old @ rest) = rest"
  by (cases old) simp_all

lemma fw_stem_stage1:
  assumes "LBR \<notin> set content" and "no_opener post"
  shows "title_season_step (fw_block content @ post) i = Inr (i, fw_block content @ post)"
proof -
  have "LBR \<notin> set (fw_block content @ post)"
    using assms no_openerD[OF assms(2)] by (simp add: fw_block_def LBR_def LFW_def RFW_def)
  then show ?thesis by (simp add: title_season_step_def title_season_no_bracket)
qed

lemma fw_stem_blocks:
  assumes "clean_content content" and "no_opener post"
  shows "re_finditer bracket_rx (fw_block content @ post) =
           [Match (fw_block content) [Some content]]"
proof -
  have "no_opener []" by (simp add: no_opener_def)
  from fw_block_found[OF this assms(1), of post] no_openerD[OF assms(2)]
  show ?thesis by (simp add: re_finditer_no_match bracket_no_open)
qed

lemma fw_claimed:
  assumes "clean_content content" and "LBR \<notin> set content" and "no_opener post"
      and "tech_keys = pre @ (key, field) # rest"
      and "list_all (\<lambda>(k, f). no_claim rs P content k) pre"
      and "P key = Some pat" and "pat \<noteq> []" and "rs pat content = Inr (Some m)"
      and "match_value m = Inr x"
      and "rs (get_rule P ''season_episode'') post = Inr None"
      and "rs (get_rule P ''episode'') post = Inr None"
  shows "\<exists>mi. parse_filename rs P (fw_block content @ post) = Inr mi \<and>
           m_title mi = Some (plain_title post) \<and> m_season mi = Some [49] \<and>
           m_episode mi = None \<and>
           (if key = ''source'' then m_remarks mi = join_remarks [x]
            else result_field mi field = Some x \<and> m_remarks mi = None)"
proof -
  let ?stem = "fw_block content @ post"
  let ?i = "if key = ''source'' then empty_info\<lparr>remarks := remarks empty_info @ [x]\<rparr>
            else if get_field empty_info field = None then set_field empty_info field x
            else empty_info"
  have tk: "try_keys rs P content tech_keys empty_info = Inr (?i, True)"
    unfolding assms(4) using assms(5-9) by (rule try_keys_hit)
  have mem: "(key, field) \<in> set tech_keys" unfolding assms(4) by simp
  have tl: "tech_loop rs P [Match (fw_block content) [Some content]] (empty_info, ?stem) =
              Inr (?i, post)"
    by (simp add: group_def tk remove_first_prefix del: try_keys.simps)
  have ei: "episode ?i = None" "title ?i = None" "season ?i = None"
    by (auto simp: empty_info_def set_field_frame)
  then have es: "episode_step rs P (?i, post) = Inr (?i, post)"
    using assms(10,11) by (simp add: episode_step_def ebind_def)
  have ft: "fallback_title post = plain_title post"
    using no_openerD[OF assms(3)]
    by (simp add: fallback_title_def plain_title_def re_sub_no_match strip_no_open)
  have pf: "parse_filename rs P ?stem = Inr (finish (?i, post))"
    by (simp add: parse_filename_def ebind_def fw_stem_stage1[OF assms(2,3)]
          fw_stem_blocks[OF assms(1,3)] tl es del: tech_loop.simps)
  have r: "m_title (finish (?i, post)) = Some (plain_title post)"
      "m_season (finish (?i, post)) = Some [49]" "m_episode (finish (?i, post)) = None"
    using ei by (simp_all add: finish_def ft)
  show ?thesis
  proof (cases "key = ''source''")
    case True
    then have "m_remarks (finish (?i, post)) = join_remarks [x]"
      by (simp add: finish_def join_remarks_def empty_info_def)
    with pf r True show ?thesis by simp
  next
    case False
    with mem have fr: "field \<noteq> FRemarks" by (auto simp: tech_keys_def)
    have g0: "get_field empty_info field = None" by (cases field) (simp_all add: empty_info_def)
    from fr have "result_field (finish (?i, post)) field = Some x"
       "m_remarks (finish (?i, post)) = None"
      using False g0 by (cases field; simp add: finish_def empty_info_def)+
    with pf r False show ?thesis by simp
  qed
qed

lemma fw_unclaimed:
  assumes "clean_content content" and "LBR \<notin> set content" and "no_opener post"
      and "list_all (\<lambda>(k, f). no_claim rs P content k) tech_keys"
      and "rs (get_rule P ''season_episode'') (fw_block content @ post) = Inr None"
      and "rs (get_rule P ''episode'') (fw_block content @ post) = Inr None"
  shows "parse_filename rs P (fw_block content @ post) =
           Inr \<lparr>m_group = None, m_title = Some (plain_title post), m_season = Some [49],
                m_episode = None, m_resolution = None, m_video_codec = None,
                m_audio_codec = None, m_subtitle = None, m_remarks = None,
                bangumi_eps = None\<rparr>"
proof -
  let ?stem = "fw_block content @ post"
  have tk: "try_keys rs P content tech_keys empty_info = Inr (empty_info, False)"
    using try_keys_skip[OF assms(4), of "[]" empty_info] by simp
  have tl: "tech_loop rs P [Match (fw_block content) [Some content]] (empty_info, ?stem) =
              Inr (empty_info, ?stem)"
    by (simp add: group_def tk del: try_keys.simps)
  have es: "episode_step rs P (empty_info, ?stem) = Inr (empty_info, ?stem)"
    using assms(5,6) by (simp add: episode_step_def ebind_def empty_info_def)
  have "no_opener []" by (simp add: no_opener_def)
  from fw_block_stripped[OF this assms(1,3)]
  have ft: "fallback_title ?stem = plain_title post" by simp
  show ?thesis
    by (simp add: parse_filename_def ebind_def fw_stem_stage1[OF assms(2,3)]
          fw_stem_blocks[OF assms(1,3)] tl es finish_def ft del: tech_loop.simps)
       (simp add: empty_info_def)
qed

section \<open>A missing rule (C1)\<close>

text \<open>
  C1.  The claim: decomposition never fails, and a rule missing from the pattern set is a
  rule that never matches.  The code does so for the six technical rules (a missing rule
  is skipped), but for \<open>season_episode\<close> and \<open>episode\<close> it puts the empty pattern in the
  place of a missing rule.  The empty pattern matches every string, and the match has no
  group 1, so \<open>group(1)\<close> raises IndexError: with an empty pattern set no file name
  is decomposed, and \<open>abc\<close> raises IndexError.
\<close>

theorem missing_rule_raises:
  "(\<forall>stem. \<exists>e. parse_filename search_ic Map.empty stem = Inl e) \<and>
   parse_filename search_ic Map.empty (ustr_of ''abc'') = Inl IndexError"
  using no_rules_raise by (simp add: pf_defs rx_defs)


section \<open>Errors of the title database (C2)\<close>

text \<open>
  C2.  The claim: an error of the title database never ends the processing of the batch.
  In the code \<open>search_subject\<close> catches NotFoundError, IndexError and KeyError, and
  \<open>get_details_for_scraping\<close> catches every APIError around the two detail requests,
  but the search request is made outside that \<open>try\<close>: a NetworkError (or an APIError for a
  status such as 500) of the search leaves \<open>get_details_for_scraping\<close>,
  \<open>_get_bangumi_details\<close> and \<open>process_directory\<close>.  With the network down a batch of
  two files ends at the first one, and no record reaches the linking step; so it does
  with AttributeError when the result list of the search is malformed.  When the database
  answers with an empty result list both files are processed.
\<close>

theorem network_failure_ends_batch:
  "fst (process_directory search_ic (get_details_for_scraping down_transport) grouped_rules
          [ustr_of ''Show A - 01'', ustr_of ''Show B - 02''] ()) = (Some NetworkError, []) \<and>
   fst (process_directory search_ic (get_details_for_scraping garbled_transport) grouped_rules
          [ustr_of ''Show A - 01'', ustr_of ''Show B - 02''] ()) = (Some AttributeError, []) \<and>
   fst (fst (process_directory search_ic (get_details_for_scraping empty_transport)
          grouped_rules [ustr_of ''Show A - 01'', ustr_of ''Show B - 02''] ())) = None"
  by (simp add: api_defs pf_defs rx_defs rule_defs)


section \<open>One lookup for each query (C3)\<close>

text \<open>
  C3.  In a run of \<open>process_directory\<close> no query string is handed to the title
  database twice (the list of lookups has no duplicates).  A call of
  \<open>_get_bangumi_details\<close> whose query is in the cache returns the cached value, a record
  or the negative \<open>None\<close>, and changes nothing; a call that returns has its value in the
  cache afterwards; and no step of the run changes an entry of the cache.
\<close>

theorem cache_single_fetch:
  "distinct (lookups (snd (process_directory rs fetch P stems w))) \<and>
   (api_cache st (api_query t s) = Some d \<longrightarrow> get_bangumi_details fetch t s st = (Inr d, st)) \<and>
   (get_bangumi_details fetch t s st = (Inr d, st1) \<longrightarrow> api_cache st1 (api_query t s) = Some d) \<and>
   (cache_inv st \<and> api_cache st q = Some d \<and> process_file rs fetch P stem st = (r, st2) \<longrightarrow>
      api_cache st2 q = Some d)"
proof -
  have "cache_inv (new_manager w)" by (simp add: cache_inv_def new_manager_def)
  then have "distinct (lookups (snd (process_directory rs fetch P stems w)))"
    unfolding process_directory_def by (rule process_files_distinct)
  moreover have "api_cache st2 q = Some d"
    if "cache_inv st \<and> api_cache st q = Some d \<and> process_file rs fetch P stem st = (r, st2)"
    using that process_file_inv[of st rs fetch P stem r st2] by blast
  ultimately show ?thesis
    using get_bangumi_details_hit[of st t s d fetch] get_bangumi_details_stores[of fetch t s st d st1]
    by blast
qed

theorem cache_single_fetch_witness:
  "process_directory search_ic (get_details_for_scraping demo_transport) grouped_rules
     same_show 0 =
   ((None, [demo_record, demo_record\<lparr>m_episode := Some (ustr_of ''02'')\<rparr>]), demo_final) \<and>
   lookups demo_final = [ustr_of ''Show A''] \<and> world demo_final = 3 \<and>
   distinct (lookups demo_final)"
proof -
  from cache_single_fetch [of search_ic "get_details_for_scraping demo_transport"
      grouped_rules same_show 0]
  have "distinct (lookups (snd (process_directory search_ic
      (get_details_for_scraping demo_transport) grouped_rules same_show 0)))"
    by (rule conjunct1)
  then have "distinct (lookups demo_final)" by (simp only: demo_run snd_conv)
  then show ?thesis by (simp add: demo_run) (simp add: demo_final_def)
qed


section \<open>Scenario A (C4)\<close>

text \<open>
  C4.  The claim: with the resolution rule \<^verbatim>\<open>\d{3,4}p\<close> and the video codec rule
  \<^verbatim>\<open>x26[45]\<close> the stem of Scenario A decomposes into title, season, episode, resolution
  and codec.  In the code the bracket \<open>[1080p]\<close> matches the resolution rule, which has no
  capturing group, and \<open>match.group(1)\<close> raises IndexError before the fall-back to
  \<open>group(0)\<close> is reached; this holds with and without rules for the episode.
\<close>

theorem scenario_a_raises:
  "parse_filename search_ic scenario_rules scenario_stem = Inl IndexError \<and>
   parse_filename search_ic scenario_rules_ep scenario_stem = Inl IndexError"
  by (simp add: pf_defs rx_defs rule_defs)

text \<open>With a capturing group around each of the two rules, and rules for the episode,
  the stem decomposes as Scenario A expects.\<close>

lemma scenario_a_grouped:
  "parse_filename search_ic grouped_rules scenario_stem =
     Inr \<lparr>m_group = None, m_title = Some (ustr_of ''Spy x Family''),
          m_season = Some (ustr_of ''3''), m_episode = Some (ustr_of ''05''),
          m_resolution = Some (ustr_of ''1080p''), m_video_codec = Some (ustr_of ''x264''),
          m_audio_codec = None, m_subtitle = None, m_remarks = None, bangumi_eps = None\<rparr>"
  by (simp add: pf_defs rx_defs rule_defs)


section \<open>The format of the episode (C5)\<close>

text \<open>
  C5, as stated: every episode is a string of exactly two digits.  It fails for an
  episode number of three digits: the format \<open>02d\<close> is a minimum width, and the name
  \<open>Show 123\<close> with the episode rule \<^verbatim>\<open>(\d+)\<close> gives the episode \<open>123\<close>.
\<close>

theorem episode_three_digits:
  "parse_filename search_ic grouped_rules (ustr_of ''Show 123'') =
     Inr \<lparr>m_group = None, m_title = Some (ustr_of ''Show''), m_season = Some [49],
          m_episode = Some (ustr_of ''123''), m_resolution = None,
          m_video_codec = None, m_audio_codec = None, m_subtitle = None, m_remarks = None,
          bangumi_eps = None\<rparr> \<and>
   length (ustr_of ''123'') = 3"
  by (simp add: pf_defs rx_defs rule_defs)

text \<open>
  C5, amended.  Every episode in the result of \<open>parse_filename\<close> comes from the text
  that is left after the bracket stage: it is group 2 of the match of the
  \<open>season_episode\<close> rule or, when that rule finds nothing, group 1 of the match of the
  \<open>episode\<close> rule, read as an integer \<open>n\<close> and written in decimal with zeros in front up
  to a width of two.  It has exactly the two digits of \<open>n\<close> when \<open>0 \<le> n < 100\<close>, all
  the digits of \<open>n\<close> (three or more) when \<open>n \<ge> 100\<close>, and a minus sign followed by the
  digits when \<open>n\<close> is negative.
\<close>

theorem episode_padding:
  assumes "parse_filename rs P stem = Inr mi" and "m_episode mi = Some e"
  shows "\<exists>i0 w0 i2 w2 m raw n.
           title_season_step stem empty_info = Inr (i0, w0) \<and>
           tech_loop rs P (re_finditer bracket_rx w0) (i0, w0) = Inr (i2, w2) \<and>
           ((rs (get_rule P ''season_episode'') w2 = Inr (Some m) \<and>
             group m 2 = Inr (Some raw)) \<or>
            (rs (get_rule P ''season_episode'') w2 = Inr None \<and>
             rs (get_rule P ''episode'') w2 = Inr (Some m) \<and> group m 1 = Inr (Some raw))) \<and>
           py_int raw = Inr n \<and> e = format_02d n \<and> 2 \<le> length e \<and>
           (0 \<le> n \<and> n < 100 \<longrightarrow> e = [48 + nat n div 10, 48 + nat n mod 10]) \<and>
           (100 \<le> n \<longrightarrow> e = digits_of (nat n) \<and> 2 < length e) \<and>
           (n < 0 \<longrightarrow> e = 45 # digits_of (nat (- n)))"
proof -
  from parse_filename_stages[OF assms(1)] obtain i0 w0 i2 w2 i3 w3 where
    1: "title_season_step stem empty_info = Inr (i0, w0)" and
    2: "tech_loop rs P (re_finditer bracket_rx w0) (i0, w0) = Inr (i2, w2)" and
    3: "episode_step rs P (i2, w2) = Inr (i3, w3)" and
    4: "mi = finish (i3, w3)" by blast
  from title_season_step_frame[OF 1] have "episode i0 = None" by (simp add: empty_info_def)
  with tech_loop_keeps[OF 2] have 5: "episode i2 = None" by simp
  from assms(2) have 6: "episode i3 = Some e" by (simp add: 4 finish_def)
  from episode_step_source[OF 3 5 6] obtain m raw n where
    7: "(rs (get_rule P ''season_episode'') w2 = Inr (Some m) \<and> group m 2 = Inr (Some raw)) \<or>
        (rs (get_rule P ''season_episode'') w2 = Inr None \<and>
         rs (get_rule P ''episode'') w2 = Inr (Some m) \<and> group m 1 = Inr (Some raw))" and
    8: "py_int raw = Inr n" "e = format_02d n" by blast
  from format_02d_cases[of n] have
    9: "2 \<le> length e \<and>
        (0 \<le> n \<and> n < 100 \<longrightarrow> e = [48 + nat n div 10, 48 + nat n mod 10]) \<and>
        (100 \<le> n \<longrightarrow> e = digits_of (nat n) \<and> 2 < length e) \<and>
        (n < 0 \<longrightarrow> e = 45 # digits_of (nat (- n)))" unfolding 8(2) .
  from 1 2 7 8 9 show ?thesis by blast
qed

theorem episode_padding_witness:
  "parse_filename search_ic grouped_rules (ustr_of ''Show S02E7'') = Inr se_result \<and>
   m_episode se_result = Some (ustr_of ''07'') \<and>
   search_ic (get_rule grouped_rules ''season_episode'') (ustr_of ''Show S02E7'') =
     Inr (Some (Match (ustr_of ''S02E7'') [Some (ustr_of ''02''), Some (ustr_of ''7'')])) \<and>
   py_int (ustr_of ''7'') = Inr 7 \<and> format_02d 7 = ustr_of ''07'' \<and>
   (\<exists>w2 m raw n.
       tech_loop search_ic grouped_rules (re_finditer bracket_rx (ustr_of ''Show S02E7''))
         (empty_info, ustr_of ''Show S02E7'') = Inr (empty_info, w2) \<and>
       search_ic (get_rule grouped_rules ''season_episode'') w2 = Inr (Some m) \<and>
       group m 2 = Inr (Some raw) \<and> py_int raw = Inr n \<and> ustr_of ''07'' = format_02d n) \<and>
   parse_filename search_ic signed_rules (ustr_of ''Show -5'') = Inr minus_result \<and>
   m_episode minus_result = Some (ustr_of ''-5'') \<and>
   search_ic (get_rule signed_rules ''episode'') (ustr_of ''Show -5'') =
     Inr (Some (Match (ustr_of ''-5'') [Some (ustr_of ''-5'')])) \<and>
   py_int (ustr_of ''-5'') = Inr (- 5) \<and> format_02d (- 5) = ustr_of ''-5'' \<and>
   parse_filename search_ic signed_rules (ustr_of ''Show -0'') =
     Inr (minus_result\<lparr>m_episode := Some (ustr_of ''00'')\<rparr>) \<and>
   py_int (ustr_of ''-0'') = Inr 0 \<and> format_02d 0 = ustr_of ''00''"
proof -
  have p: "parse_filename search_ic grouped_rules (ustr_of ''Show S02E7'') = Inr se_result"
    by (simp add: pf_defs rx_defs rule_defs se_result_def)
  have e: "m_episode se_result = Some (ustr_of ''07'')"
    by (simp add: se_result_def)
  have s: "search_ic (get_rule grouped_rules ''season_episode'') (ustr_of ''Show S02E7'') =
     Inr (Some (Match (ustr_of ''S02E7'') [Some (ustr_of ''02''), Some (ustr_of ''7'')]))"
    by (simp add: pf_defs rx_defs rule_defs)
  have ts: "title_season_step (ustr_of ''Show S02E7'') empty_info =
              Inr (empty_info, ustr_of ''Show S02E7'')"
    by (simp add: pf_defs rx_defs)
  have tl: "tech_loop search_ic grouped_rules (re_finditer bracket_rx (ustr_of ''Show S02E7''))
         (empty_info, ustr_of ''Show S02E7'') = Inr (empty_info, ustr_of ''Show S02E7'')"
    by (simp add: pf_defs rx_defs)
  from episode_padding [OF p e] obtain i0 w0 i2 w2 m raw n where
    1: "title_season_step (ustr_of ''Show S02E7'') empty_info = Inr (i0, w0)" and
    2: "tech_loop search_ic grouped_rules (re_finditer bracket_rx w0) (i0, w0) = Inr (i2, w2)" and
    3: "(search_ic (get_rule grouped_rules ''season_episode'') w2 = Inr (Some m) \<and>
             group m 2 = Inr (Some raw)) \<or>
            (search_ic (get_rule grouped_rules ''season_episode'') w2 = Inr None \<and>
             search_ic (get_rule grouped_rules ''episode'') w2 = Inr (Some m) \<and>
             group m 1 = Inr (Some raw))" and
    4: "py_int raw = Inr n" "ustr_of ''07'' = format_02d n" by blast
  from 1 ts have 5: "i0 = empty_info" "w0 = ustr_of ''Show S02E7''" by simp_all
  from 2 tl have 6: "i2 = empty_info" "w2 = ustr_of ''Show S02E7''" by (simp_all add: 5)
  from 3 s have 7: "search_ic (get_rule grouped_rules ''season_episode'') w2 = Inr (Some m) \<and>
             group m 2 = Inr (Some raw)" by (simp add: 6)
  from tl 6 7 4 have x: "\<exists>w2 m raw n.
       tech_loop search_ic grouped_rules (re_finditer bracket_rx (ustr_of ''Show S02E7''))
         (empty_info, ustr_of ''Show S02E7'') = Inr (empty_info, w2) \<and>
       search_ic (get_rule grouped_rules ''season_episode'') w2 = Inr (Some m) \<and>
       group m 2 = Inr (Some raw) \<and> py_int raw = Inr n \<and> ustr_of ''07'' = format_02d n"
    by blast
  have v: "py_int (ustr_of ''7'') = Inr 7" "format_02d 7 = ustr_of ''07''"
      "py_int (ustr_of ''-5'') = Inr (- 5)" "format_02d (- 5) = ustr_of ''-5''"
      "py_int (ustr_of ''-0'') = Inr 0" "format_02d 0 = ustr_of ''00''"
    by (simp_all add: pf_defs rx_defs)
  have n: "parse_filename search_ic signed_rules (ustr_of ''Show -5'') = Inr minus_result"
      "m_episode minus_result = Some (ustr_of ''-5'')"
      "search_ic (get_rule signed_rules ''episode'') (ustr_of ''Show -5'') =
         Inr (Some (Match (ustr_of ''-5'') [Some (ustr_of ''-5'')]))"
      "parse_filename search_ic signed_rules (ustr_of ''Show -0'') =
         Inr (minus_result\<lparr>m_episode := Some (ustr_of ''00'')\<rparr>)"
    by (simp_all add: pf_defs rx_defs rule_defs minus_result_def)
  from p e s x v n show ?thesis by (simp only:) 
qed


section \<open>Fields are set once (C6)\<close>

text \<open>
  C6.  Split the bracketed blocks of a name into the earlier and the later ones, and let
  \<open>b\<close> be the first of the later ones.  A technical field (resolution, video codec,
  audio codec, subtitle, group) that has a value after the earlier blocks has this value in
  the result of \<open>parse_filename\<close>, and the remarks collected so far are kept in front
  of the later ones.  When the first rule that finds something in \<open>b\<close> is the source
  rule, the loop appends the value to the remarks and changes nothing else, whatever the
  remarks already hold, and the result has this value right after the earlier remarks.
  When it is the rule of a technical field, the remarks stay as they are and the result has
  the old value of the field if it had one, the new value otherwise.
\<close>

theorem no_overwrite:
  assumes "parse_filename rs P stem = Inr mi"
      and "title_season_step stem empty_info = Inr (i0, w0)"
      and "re_finditer bracket_rx w0 = earlier @ later"
      and "tech_loop rs P earlier (i0, w0) = Inr (i1, w1)"
  shows "(get_field i1 f = Some v \<longrightarrow> result_field mi f = Some v) \<and>
         (\<exists>more. m_remarks mi = join_remarks (remarks i1 @ more)) \<and>
         (later = b # rest \<and> group b 1 = Inr (Some content) \<and>
          tech_keys = pre @ (key, field) # post \<and>
          list_all (\<lambda>(k, f). no_claim rs P content k) pre \<and>
          P key = Some pat \<and> pat \<noteq> [] \<and> rs pat content = Inr (Some m) \<and>
          match_value m = Inr x \<longrightarrow>
            tech_loop rs P (earlier @ [b]) (i0, w0) =
              Inr (if key = ''source'' then i1\<lparr>remarks := remarks i1 @ [x]\<rparr>
                   else if get_field i1 field = None then set_field i1 field x else i1,
                   remove_first (whole b) w1) \<and>
            (if key = ''source''
             then (\<exists>more. m_remarks mi = join_remarks (remarks i1 @ [x] @ more))
             else remarks (if get_field i1 field = None then set_field i1 field x else i1)
                    = remarks i1 \<and>
                  result_field mi field =
                    Some (case get_field i1 field of None \<Rightarrow> x | Some old \<Rightarrow> old)))"
proof -
  from parse_filename_stages[OF assms(1)] obtain j0 v0 i2 w2 i3 w3 where
    1: "title_season_step stem empty_info = Inr (j0, v0)" and
    2: "tech_loop rs P (re_finditer bracket_rx v0) (j0, v0) = Inr (i2, w2)" and
    3: "episode_step rs P (i2, w2) = Inr (i3, w3)" and
    4: "mi = finish (i3, w3)" by blast
  from 1 assms(2) have "j0 = i0" "v0 = w0" by simp_all
  note 2 = 2[unfolded this]
  from 2 assms(3,4) have 5: "tech_loop rs P later (i1, w1) = Inr (i2, w2)"
    by (simp add: tech_loop_append)
  from tech_loop_keeps[OF 5, of f v] obtain more where
    6: "get_field i1 f = Some v \<longrightarrow> get_field i2 f = Some v" and
    7: "remarks i2 = remarks i1 @ more" by blast
  from episode_step_frame[OF 3] have
    8: "remarks i3 = remarks i2" "\<And>g. get_field i3 g = get_field i2 g" by auto
  have 9: "m_remarks mi = join_remarks (remarks i2)"
    by (simp add: 4 finish_def join_remarks_def 8)
  have 10: "\<And>g. result_field mi g = get_field i2 g"
    by (simp add: 4 result_field_finish 8)
  have A: "get_field i1 f = Some v \<longrightarrow> result_field mi f = Some v"
    using 6 10 by simp
  have B: "\<exists>more. m_remarks mi = join_remarks (remarks i1 @ more)"
    using 7 9 by auto
  have C: "tech_loop rs P (earlier @ [b]) (i0, w0) =
              Inr (if key = ''source'' then i1\<lparr>remarks := remarks i1 @ [x]\<rparr>
                   else if get_field i1 field = None then set_field i1 field x else i1,
                   remove_first (whole b) w1) \<and>
            (if key = ''source''
             then (\<exists>more. m_remarks mi = join_remarks (remarks i1 @ [x] @ more))
             else remarks (if get_field i1 field = None then set_field i1 field x else i1)
                    = remarks i1 \<and>
                  result_field mi field =
                    Some (case get_field i1 field of None \<Rightarrow> x | Some old \<Rightarrow> old))"
    if h: "later = b # rest \<and> group b 1 = Inr (Some content) \<and>
          tech_keys = pre @ (key, field) # post \<and>
          list_all (\<lambda>(k, f). no_claim rs P content k) pre \<and>
          P key = Some pat \<and> pat \<noteq> [] \<and> rs pat content = Inr (Some m) \<and>
          match_value m = Inr x"
  proof -
    let ?i' = "if key = ''source'' then i1\<lparr>remarks := remarks i1 @ [x]\<rparr>
               else if get_field i1 field = None then set_field i1 field x else i1"
    from h have tk: "try_keys rs P content tech_keys i1 = Inr (?i', True)"
      using try_keys_hit[of rs P content pre key pat m x field post i1] by simp
    from h have gb: "group b 1 = Inr (Some content)" by simp
    from tech_loop_snoc[OF assms(4) gb tk]
    have T: "tech_loop rs P (earlier @ [b]) (i0, w0) = Inr (?i', remove_first (whole b) w1)" .
    from 5 h gb tk have R: "tech_loop rs P rest (?i', remove_first (whole b) w1) = Inr (i2, w2)"
      by simp
    from h have "tech_keys = pre @ (key, field) # post" by simp
    then have mem: "(key, field) \<in> set tech_keys" by (metis in_set_conv_decomp)
    show ?thesis
    proof (cases "key = ''source''")
      case True
      from tech_loop_keeps[OF R] True obtain more2 where
        "remarks i2 = (remarks i1 @ [x]) @ more2" by auto
      with 9 have "\<exists>more. m_remarks mi = join_remarks (remarks i1 @ [x] @ more)" by auto
      then show ?thesis using T True by simp
    next
      case False
      with mem have fr: "field \<noteq> FRemarks" by (auto simp: tech_keys_def)
      then have r: "remarks (if get_field i1 field = None then set_field i1 field x else i1)
                    = remarks i1" by (cases field) auto
      have g: "get_field ?i' field = Some (case get_field i1 field of None \<Rightarrow> x | Some old \<Rightarrow> old)"
        using False fr by (cases "get_field i1 field") (auto simp: get_set_field)
      from tech_loop_keeps[OF R, of field] g 10[of field]
      have "result_field mi field =
              Some (case get_field i1 field of None \<Rightarrow> x | Some old \<Rightarrow> old)" by simp
      with T False r show ?thesis by simp
    qed
  qed
  from A B C show ?thesis by blast
qed

theorem no_overwrite_witness:
  "parse_filename search_ic source_rules bd_stem = Inr bd_result \<and>
   title_season_step bd_stem empty_info = Inr (empty_info, bd_stem) \<and>
   re_finditer bracket_rx bd_stem = [bd_block1, bd_block2] @ [bd_block3] \<and>
   tech_loop search_ic source_rules [bd_block1, bd_block2] (empty_info, bd_stem) =
     Inr (bd_info2, ustr_of ''[bd] Show - 03'') \<and>
   tech_loop search_ic source_rules ([bd_block1, bd_block2] @ [bd_block3]) (empty_info, bd_stem) =
     Inr (bd_info2\<lparr>remarks := [ustr_of ''BD'', ustr_of ''bd'']\<rparr>, ustr_of '' Show - 03'') \<and>
   result_field bd_result FResolution = Some (ustr_of ''1080p'') \<and>
   m_remarks bd_result = Some (ustr_of ''BD, bd'') \<and>
   (\<exists>more. m_remarks bd_result = join_remarks ([ustr_of ''BD''] @ [ustr_of ''bd''] @ more)) \<and>
   parse_filename search_ic grouped_rules two_res_stem = Inr two_res_result \<and>
   re_finditer bracket_rx two_res_stem = [res_block1] @ [res_block2] \<and>
   tech_loop search_ic grouped_rules [res_block1] (empty_info, two_res_stem) =
     Inr (empty_info\<lparr>resolution := Some (ustr_of ''720p'')\<rparr>, ustr_of ''[1080p] Show S02E07'') \<and>
   tech_loop search_ic grouped_rules ([res_block1] @ [res_block2]) (empty_info, two_res_stem) =
     Inr (empty_info\<lparr>resolution := Some (ustr_of ''720p'')\<rparr>, ustr_of '' Show S02E07'') \<and>
   result_field two_res_result FResolution = Some (ustr_of ''720p'')"
proof -
  have p: "parse_filename search_ic source_rules bd_stem = Inr bd_result"
    by (simp add: pf_defs rx_defs rule_defs bd_defs)
  have ts: "title_season_step bd_stem empty_info = Inr (empty_info, bd_stem)"
    by (simp add: pf_defs rx_defs bd_defs)
  have fi: "re_finditer bracket_rx bd_stem = [bd_block1, bd_block2] @ [bd_block3]"
    by (simp add: pf_defs rx_defs bd_defs)
  have tl: "tech_loop search_ic source_rules [bd_block1, bd_block2] (empty_info, bd_stem) =
     Inr (bd_info2, ustr_of ''[bd] Show - 03'')"
    by (simp add: pf_defs rx_defs rule_defs bd_defs)
  have h: "[bd_block3] = bd_block3 # [] \<and> group bd_block3 1 = Inr (Some (ustr_of ''bd'')) \<and>
      tech_keys = [(''resolution'', FResolution)] @ (''source'', FRemarks) #
         [(''video_codec'', FVideoCodec), (''audio_codec'', FAudioCodec),
          (''subtitle'', FSubtitle), (''group'', FGroup)] \<and>
      list_all (\<lambda>(k, f). no_claim search_ic source_rules (ustr_of ''bd'') k)
         [(''resolution'', FResolution)] \<and>
      source_rules ''source'' = Some rule_src \<and> rule_src \<noteq> [] \<and>
      search_ic rule_src (ustr_of ''bd'') =
         Inr (Some (Match (ustr_of ''bd'') [Some (ustr_of ''bd'')])) \<and>
      match_value (Match (ustr_of ''bd'') [Some (ustr_of ''bd'')]) = Inr (ustr_of ''bd'')"
    by (simp add: pf_defs rx_defs rule_defs bd_defs no_claim_def)
  have q: "parse_filename search_ic grouped_rules two_res_stem = Inr two_res_result"
    by (simp add: pf_defs rx_defs rule_defs bd_defs)
  have ts2: "title_season_step two_res_stem empty_info = Inr (empty_info, two_res_stem)"
    by (simp add: pf_defs rx_defs bd_defs)
  have fi2: "re_finditer bracket_rx two_res_stem = [res_block1] @ [res_block2]"
    by (simp add: pf_defs rx_defs bd_defs)
  have tl2: "tech_loop search_ic grouped_rules [res_block1] (empty_info, two_res_stem) =
     Inr (empty_info\<lparr>resolution := Some (ustr_of ''720p'')\<rparr>, ustr_of ''[1080p] Show S02E07'')"
    by (simp add: pf_defs rx_defs rule_defs bd_defs)
  have h2: "[res_block2] = res_block2 # [] \<and>
      group res_block2 1 = Inr (Some (ustr_of ''1080p'')) \<and>
      tech_keys = [] @ (''resolution'', FResolution) #
         [(''source'', FRemarks), (''video_codec'', FVideoCodec),
          (''audio_codec'', FAudioCodec), (''subtitle'', FSubtitle), (''group'', FGroup)] \<and>
      list_all (\<lambda>(k, f). no_claim search_ic grouped_rules (ustr_of ''1080p'') k) [] \<and>
      grouped_rules ''resolution'' = Some rule_res_g \<and> rule_res_g \<noteq> [] \<and>
      search_ic rule_res_g (ustr_of ''1080p'') =
         Inr (Some (Match (ustr_of ''1080p'') [Some (ustr_of ''1080p'')])) \<and>
      match_value (Match (ustr_of ''1080p'') [Some (ustr_of ''1080p'')]) = Inr (ustr_of ''1080p'')"
    by (simp add: pf_defs rx_defs rule_defs bd_defs no_claim_def)
  note a = no_overwrite [OF p ts fi tl, where f = FResolution and v = "ustr_of ''1080p''"
      and b = bd_block3 and rest = "[]" and content = "ustr_of ''bd''"
      and pre = "[(''resolution'', FResolution)]" and key = "''source''" and field = FRemarks
      and post = "[(''video_codec'', FVideoCodec), (''audio_codec'', FAudioCodec),
          (''subtitle'', FSubtitle), (''group'', FGroup)]"
      and pat = rule_src and m = "Match (ustr_of ''bd'') [Some (ustr_of ''bd'')]"
      and x = "ustr_of ''bd''"]
  note b = no_overwrite [OF q ts2 fi2 tl2, where f = FResolution and v = "ustr_of ''720p''"
      and b = res_block2 and rest = "[]" and content = "ustr_of ''1080p''"
      and pre = "[]" and key = "''resolution''" and field = FResolution
      and post = "[(''source'', FRemarks), (''video_codec'', FVideoCodec),
          (''audio_codec'', FAudioCodec), (''subtitle'', FSubtitle), (''group'', FGroup)]"
      and pat = rule_res_g and m = "Match (ustr_of ''1080p'') [Some (ustr_of ''1080p'')]"
      and x = "ustr_of ''1080p''"]
  have r1: "get_field bd_info2 FResolution = Some (ustr_of ''1080p'')"
       "remarks bd_info2 = [ustr_of ''BD'']"
    by (simp_all add: bd_info2_def empty_info_def)
  have r2: "get_field (empty_info\<lparr>resolution := Some (ustr_of ''720p'')\<rparr>) FResolution =
              Some (ustr_of ''720p'')" by simp
  from a h r1 have A:
    "result_field bd_result FResolution = Some (ustr_of ''1080p'')"
    "tech_loop search_ic source_rules ([bd_block1, bd_block2] @ [bd_block3]) (empty_info, bd_stem) =
       Inr (bd_info2\<lparr>remarks := [ustr_of ''BD'', ustr_of ''bd'']\<rparr>,
            remove_first (whole bd_block3) (ustr_of ''[bd] Show - 03''))"
    "\<exists>more. m_remarks bd_result = join_remarks ([ustr_of ''BD''] @ [ustr_of ''bd''] @ more)"
    by simp_all
  from b h2 r2 have B:
    "result_field two_res_result FResolution = Some (ustr_of ''720p'')"
    "tech_loop search_ic grouped_rules ([res_block1] @ [res_block2]) (empty_info, two_res_stem) =
       Inr (empty_info\<lparr>resolution := Some (ustr_of ''720p'')\<rparr>,
            remove_first (whole res_block2) (ustr_of ''[1080p] Show S02E07''))"
    by simp_all
  have w: "remove_first (whole bd_block3) (ustr_of ''[bd] Show - 03'') = ustr_of '' Show - 03''"
      "remove_first (whole res_block2) (ustr_of ''[1080p] Show S02E07'') = ustr_of '' Show S02E07''"
      "m_remarks bd_result = Some (ustr_of ''BD, bd'')"
    by (simp_all add: bd_defs ustr_of_def)
  from p ts fi tl q fi2 tl2 A B w show ?thesis by simp
qed


section \<open>The season correction (C7)\<close>

text \<open>
  C7.  When a record is found, the season is overwritten only if the parsed season is
  \<open>1\<close> and the localized title contains a marker: U+7B2C, one of the ten numerals,
  U+5B63.  The season is then the string of the table for the numeral of the first marker
  in the title: \<open>1\<close> for U+4E00, \<open>2\<close> for U+4E8C, \<open>3\<close> for U+4E09, \<open>4\<close> for U+56DB,
  \<open>5\<close> for U+4E94, \<open>6\<close> for U+516D, \<open>7\<close> for U+4E03, \<open>8\<close> for U+516B, \<open>9\<close> for
  U+4E5D and \<open>10\<close> for U+5341.  Any other season, and a title without such a marker (so
  every numeral outside the table), leave the season as it is.
\<close>

theorem season_correction_spec:
  "season_correction s t =
     (if s = Some [49] then (case marker_season t of None \<Rightarrow> s | Some str \<Rightarrow> Some str)
      else s) \<and>
   (marker_season t = Some str \<longrightarrow>
      (\<exists>pre c post. t = pre @ [31532, c, 23395] @ post \<and> numeral_season c = Some str \<and>
         (\<forall>pre' c' post'. t = pre' @ [31532, c', 23395] @ post' \<and> numeral_season c' \<noteq> None
             \<longrightarrow> length pre \<le> length pre'))) \<and>
   (marker_season t = None \<longrightarrow>
      \<not> (\<exists>pre c post. t = pre @ [31532, c, 23395] @ post \<and> numeral_season c \<noteq> None)) \<and>
   map (\<lambda>c. season_correction (Some [49]) [31532, c, 23395])
       [19968, 20108, 19977, 22235, 20116, 20845, 19971, 20843, 20061, 21313] =
     [Some (ustr_of ''1''), Some (ustr_of ''2''), Some (ustr_of ''3''), Some (ustr_of ''4''),
      Some (ustr_of ''5''), Some (ustr_of ''6''), Some (ustr_of ''7''), Some (ustr_of ''8''),
      Some (ustr_of ''9''), Some (ustr_of ''10'')] \<and>
   (name_cn d = JStr t \<longrightarrow>
      (\<exists>mi'. apply_details mi d = Inr mi' \<and>
             m_season mi' = season_correction (m_season mi) t))"
proof -
  have 1: "\<not> (\<exists>pre c post. t = pre @ [31532, c, 23395] @ post \<and> numeral_season c \<noteq> None)"
    if "marker_season t = None"
    using that marker_season_found by blast
  have 2: "\<exists>mi'. apply_details mi d = Inr mi' \<and> m_season mi' = season_correction (m_season mi) t"
    if "name_cn d = JStr t"
    using that by (simp add: apply_details_def)
  from 1 2 season_correction_season[of s t] marker_season_first[of t str] season_table
  show ?thesis by blast
qed

theorem season_correction_spec_witness:
  "season_correction (Some [49]) demo_title = Some (ustr_of ''2'') \<and>
   marker_season demo_title = Some (ustr_of ''2'') \<and>
   season_correction (Some (ustr_of ''3'')) demo_title = Some (ustr_of ''3'') \<and>
   marker_season [31532, 30334, 23395] = None \<and>
   season_correction (Some [49]) [31532, 30334, 23395] = Some [49] \<and>
   season_correction (Some [49]) [31532, 21313, 23395, 31532, 20108, 23395] = Some (ustr_of ''10'') \<and>
   map (\<lambda>c. season_correction (Some [49]) [120, 31532, c, 23395, 121])
       [19968, 20108, 19977, 22235, 20116, 20845, 19971, 20843, 20061, 21313] =
     [Some (ustr_of ''1''), Some (ustr_of ''2''), Some (ustr_of ''3''), Some (ustr_of ''4''),
      Some (ustr_of ''5''), Some (ustr_of ''6''), Some (ustr_of ''7''), Some (ustr_of ''8''),
      Some (ustr_of ''9''), Some (ustr_of ''10'')] \<and>
   (\<exists>pre c post. demo_title = pre @ [31532, c, 23395] @ post \<and>
       numeral_season c = Some (ustr_of ''2''))"
proof -
  have m: "marker_season demo_title = Some (ustr_of ''2'')"
      "marker_season [31532, 30334, 23395] = None"
      "marker_season [31532, 21313, 23395, 31532, 20108, 23395] = Some (ustr_of ''10'')"
    by (simp_all add: demo_title_def numeral_season_def DI_def JI_def)
  have t: "map (\<lambda>c. season_correction (Some [49]) [120, 31532, c, 23395, 121])
       [19968, 20108, 19977, 22235, 20116, 20845, 19971, 20843, 20061, 21313] =
     [Some (ustr_of ''1''), Some (ustr_of ''2''), Some (ustr_of ''3''), Some (ustr_of ''4''),
      Some (ustr_of ''5''), Some (ustr_of ''6''), Some (ustr_of ''7''), Some (ustr_of ''8''),
      Some (ustr_of ''9''), Some (ustr_of ''10'')]"
    by (simp add: demo_defs rx_defs py_str_def digits_of.simps)
  note a = season_correction_spec [of "Some [49]" demo_title "ustr_of ''2''"]
  note b = season_correction_spec [of "Some (ustr_of ''3'')" demo_title "ustr_of ''2''"]
  note c = season_correction_spec [of "Some [49]" "[31532, 30334, 23395]" "ustr_of ''2''"]
  note d = season_correction_spec [of "Some [49]"
      "[31532, 21313, 23395, 31532, 20108, 23395]" "ustr_of ''10''"]
  from a m have 1: "season_correction (Some [49]) demo_title = Some (ustr_of ''2'')" by simp
  from a m have 2: "\<exists>pre c post. demo_title = pre @ [31532, c, 23395] @ post \<and>
       numeral_season c = Some (ustr_of ''2'')" by blast
  from b have 3: "season_correction (Some (ustr_of ''3'')) demo_title = Some (ustr_of ''3'')"
    by (simp add: ustr_of_def)
  from c m have 4: "season_correction (Some [49]) [31532, 30334, 23395] = Some [49]" by simp
  from d m have 5: "season_correction (Some [49]) [31532, 21313, 23395, 31532, 20108, 23395] =
      Some (ustr_of ''10'')" by simp
  from 1 2 3 4 5 m t show ?thesis by (simp only:)
qed


section \<open>A name without brackets and digits (C8)\<close>

text \<open>
  C8, as stated: a stem without brackets and digits decomposes to the title
  \<open>Unknown Title\<close>.  It fails for the stem \<open>My Show\<close>: the text that is left over is
  the title.
\<close>

theorem plain_stem_keeps_title:
  "parse_filename search_ic grouped_rules (ustr_of ''My Show'') = Inr my_show_result \<and>
   m_title my_show_result \<noteq> Some unknown_title \<and>
   \<not> list_ex (\<lambda>c. c = LBR \<or> c = RBR \<or> c = LFW \<or> c = RFW \<or> is_decimal c) (ustr_of ''My Show'')"
  by (simp add: pf_defs rx_defs rule_defs my_show_result_def)

text \<open>
  C8, amended.  For a stem without an opening bracket in which the rules
  \<open>season_episode\<close> and \<open>episode\<close> find nothing (as rules that need a digit do on a stem
  without digits), the season is \<open>1\<close>, every optional field is unset, and the title is
  the stem with its separator runs collapsed and its ends trimmed; it is \<open>Unknown Title\<close>
  when nothing is left.
\<close>

theorem plain_stem_defaults:
  assumes "LBR \<notin> set stem" and "LFW \<notin> set stem"
      and "rs (get_rule P ''season_episode'') stem = Inr None"
      and "rs (get_rule P ''episode'') stem = Inr None"
  shows "parse_filename rs P stem =
           Inr \<lparr>m_group = None, m_title = Some (plain_title stem), m_season = Some [49],
                m_episode = None, m_resolution = None, m_video_codec = None,
                m_audio_codec = None, m_subtitle = None, m_remarks = None,
                bangumi_eps = None\<rparr>"
proof -
  have 1: "title_season_step stem empty_info = Inr (empty_info, stem)"
    using assms(1) by (simp add: title_season_step_def title_season_no_bracket)
  have 2: "re_finditer bracket_rx stem = []"
    using assms(1,2) by (simp add: re_finditer_no_match bracket_no_open)
  have 3: "episode_step rs P (empty_info, stem) = Inr (empty_info, stem)"
    using assms(3,4) by (simp add: episode_step_def ebind_def empty_info_def)
  have 4: "fallback_title stem = plain_title stem"
    using assms(1,2)
    by (simp add: fallback_title_def plain_title_def re_sub_no_match strip_no_open)
  show ?thesis
    by (simp add: parse_filename_def ebind_def 1 2 3 finish_def 4) (simp add: empty_info_def)
qed

theorem plain_stem_defaults_witness:
  "LBR \<notin> set (ustr_of ''My Show'') \<and> LFW \<notin> set (ustr_of ''My Show'') \<and>
   search_ic (get_rule grouped_rules ''season_episode'') (ustr_of ''My Show'') = Inr None \<and>
   search_ic (get_rule grouped_rules ''episode'') (ustr_of ''My Show'') = Inr None \<and>
   plain_title (ustr_of ''My Show'') = ustr_of ''My Show'' \<and>
   parse_filename search_ic grouped_rules (ustr_of ''My Show'') = Inr my_show_result \<and>
   plain_title (ustr_of '' - _ . '') = unknown_title"
proof -
  have a: "LBR \<notin> set (ustr_of ''My Show'')" "LFW \<notin> set (ustr_of ''My Show'')"
    by (simp_all add: rx_defs)
  have b: "search_ic (get_rule grouped_rules ''season_episode'') (ustr_of ''My Show'') = Inr None"
      "search_ic (get_rule grouped_rules ''episode'') (ustr_of ''My Show'') = Inr None"
    by (simp_all add: pf_defs rx_defs rule_defs)
  have c: "plain_title (ustr_of ''My Show'') = ustr_of ''My Show''"
      "plain_title (ustr_of '' - _ . '') = unknown_title"
    by (simp_all add: plain_title_def pf_defs rx_defs)
  from plain_stem_defaults [where stem = "ustr_of ''My Show''" and rs = search_ic and P = grouped_rules, OF a b]
    a b c show ?thesis
    by (simp add: my_show_result_def)
qed


section \<open>No lookup for a missing title (C9)\<close>

text \<open>
  C9.  When the decomposed title is empty or the sentinel \<open>Unknown Title\<close>,
  \<open>process_directory\<close> hands the decomposed record to the linking step as it is and
  leaves the state of the manager untouched: the client is not called (its world and the
  list of lookups are the same), the cache is the same, and the record has no
  \<open>bangumi_eps\<close>.
\<close>

theorem sentinel_title_skips_lookup:
  assumes "parse_filename rs P stem = Inr mi"
      and "m_title mi = None \<or> m_title mi = Some [] \<or> m_title mi = Some unknown_title"
  shows "process_file rs fetch P stem st = (Inr mi, st) \<and> bangumi_eps mi = None"
proof -
  from parse_filename_stages[OF assms(1)] have "bangumi_eps mi = None"
    by (auto simp: finish_def)
  moreover have "resolve fetch mi st = (Inr mi, st)"
    using assms(2) by (auto simp: resolve_def)
  ultimately show ?thesis using assms(1) by (simp add: process_file_def)
qed

theorem sentinel_title_skips_lookup_witness:
  "parse_filename search_ic grouped_rules (ustr_of ''[Season 2]'') = Inr season_only_result \<and>
   m_title season_only_result = Some [] \<and>
   process_file search_ic (get_details_for_scraping down_transport) grouped_rules
       (ustr_of ''[Season 2]'') (new_manager ()) = (Inr season_only_result, new_manager ()) \<and>
   parse_filename search_ic grouped_rules (ustr_of '' - - '') = Inr dashes_result \<and>
   m_title dashes_result = Some unknown_title \<and>
   process_file search_ic (get_details_for_scraping down_transport) grouped_rules
       (ustr_of '' - - '') (new_manager ()) = (Inr dashes_result, new_manager ())"
proof -
  have p: "parse_filename search_ic grouped_rules (ustr_of ''[Season 2]'') = Inr season_only_result"
    by (simp add: pf_defs rx_defs rule_defs season_only_result_def)
  have t: "m_title season_only_result = None \<or> m_title season_only_result = Some [] \<or>
           m_title season_only_result = Some unknown_title"
    by (simp add: season_only_result_def)
  have q: "parse_filename search_ic grouped_rules (ustr_of '' - - '') = Inr dashes_result"
    by (simp add: pf_defs rx_defs rule_defs dashes_result_def)
  have u: "m_title dashes_result = None \<or> m_title dashes_result = Some [] \<or>
           m_title dashes_result = Some unknown_title"
    by (simp add: dashes_result_def)
  from sentinel_title_skips_lookup
         [OF p t, of "get_details_for_scraping down_transport" "new_manager ()"]
       sentinel_title_skips_lookup
         [OF q u, of "get_details_for_scraping down_transport" "new_manager ()"] p q
  show ?thesis by (simp add: season_only_result_def dashes_result_def)
qed


section \<open>The title and season bracket is an ASCII bracket (C10)\<close>

text \<open>
  C10.  The first stage claims only segments between the ASCII brackets: whatever its
  pattern matches starts with \<open>[\<close> and ends with \<open>]\<close>, and a name without \<open>[\<close> is
  left as it is, so a block in full-width brackets with a title and a season is not
  claimed.  The other stages treat the full-width brackets as brackets.  The pattern of the
  technical stage finds a block in full-width brackets as a block, and
  \<open>parse_filename\<close> hands its content to the rules: the first rule that finds something
  sets its field (or adds to the remarks) and the block is gone from the title.  The title
  fall-back strips a block in full-width brackets: the title is made of the text around
  it, and a block that no rule claims leaves no trace in the result.
\<close>

theorem title_season_ascii_only:
  "(re_search title_season_rx s = Some (pre, m, post) \<longrightarrow>
      (\<exists>mid. whole m = LBR # mid @ [RBR] \<and> s = pre @ whole m @ post)) \<and>
   (LBR \<notin> set s \<longrightarrow> title_season_step s i = Inr (i, s)) \<and>
   title_season_step fw_example empty_info = Inr (empty_info, fw_example) \<and>
   map whole (re_finditer bracket_rx fw_example) = [fw_example] \<and>
   re_sub strip_rx [] fw_example = [] \<and>
   fallback_title fw_example = unknown_title \<and>
   parse_filename search_ic grouped_rules fw_example =
     Inr (dashes_result\<lparr>m_episode := Some (ustr_of ''02'')\<rparr>) \<and>
   (no_opener pre2 \<and> clean_content content \<longrightarrow>
      re_finditer bracket_rx (pre2 @ fw_block content @ post2) =
        Match (fw_block content) [Some content] # re_finditer bracket_rx post2) \<and>
   (no_opener pre2 \<and> clean_content content \<and> no_opener post2 \<longrightarrow>
      fallback_title (pre2 @ fw_block content @ post2) = plain_title (pre2 @ post2)) \<and>
   (clean_content content \<and> LBR \<notin> set content \<and> no_opener post2 \<and>
    tech_keys = kpre @ (key, field) # krest \<and>
    list_all (\<lambda>(k, f). no_claim rs P content k) kpre \<and>
    P key = Some pat \<and> pat \<noteq> [] \<and> rs pat content = Inr (Some km) \<and>
    match_value km = Inr x \<and>
    rs (get_rule P ''season_episode'') post2 = Inr None \<and>
    rs (get_rule P ''episode'') post2 = Inr None \<longrightarrow>
      (\<exists>mi. parse_filename rs P (fw_block content @ post2) = Inr mi \<and>
           m_title mi = Some (plain_title post2) \<and> m_season mi = Some [49] \<and>
           m_episode mi = None \<and>
           (if key = ''source'' then m_remarks mi = join_remarks [x]
            else result_field mi field = Some x \<and> m_remarks mi = None))) \<and>
   (clean_content content \<and> LBR \<notin> set content \<and> no_opener post2 \<and>
    list_all (\<lambda>(k, f). no_claim rs P content k) tech_keys \<and>
    rs (get_rule P ''season_episode'') (fw_block content @ post2) = Inr None \<and>
    rs (get_rule P ''episode'') (fw_block content @ post2) = Inr None \<longrightarrow>
      parse_filename rs P (fw_block content @ post2) =
        Inr \<lparr>m_group = None, m_title = Some (plain_title post2), m_season = Some [49],
             m_episode = None, m_resolution = None, m_video_codec = None,
             m_audio_codec = None, m_subtitle = None, m_remarks = None,
             bangumi_eps = None\<rparr>)"
proof -
  have 1: "\<exists>mid. whole m = LBR # mid @ [RBR] \<and> s = pre @ whole m @ post"
    if "re_search title_season_rx s = Some (pre, m, post)"
    using that by (rule title_season_delimited)
  have 2: "title_season_step s i = Inr (i, s)" if "LBR \<notin> set s"
    using that by (simp add: title_season_step_def title_season_no_bracket)
  have "LBR \<notin> set fw_example"
    by (simp add: fw_example_def LBR_def LFW_def RFW_def ustr_of_def)
  then have 3: "title_season_step fw_example empty_info = Inr (empty_info, fw_example)"
    by (simp add: title_season_step_def title_season_no_bracket)
  have 4: "map whole (re_finditer bracket_rx fw_example) = [fw_example]"
    by (simp add: fw_example_def re_finditer.simps rx_defs)
  have 5: "re_sub strip_rx [] fw_example = []"
    by (simp add: fw_example_def re_sub.simps rx_defs)
  have 6: "fallback_title fw_example = unknown_title"
    by (simp add: fw_example_def pf_defs rx_defs)
  have 7: "parse_filename search_ic grouped_rules fw_example =
             Inr (dashes_result\<lparr>m_episode := Some (ustr_of ''02'')\<rparr>)"
    by (simp add: fw_example_def pf_defs rx_defs rule_defs dashes_result_def nd_zeros_def)
  note 8 = fw_block_found[of pre2 content post2]
  note 9 = fw_block_stripped[of pre2 content post2]
  note 10 = fw_claimed[of content post2 kpre key field krest rs P pat km x]
  note 11 = fw_unclaimed[of content post2 rs P]
  show ?thesis
    apply (intro conjI impI)
    using 1 2 3 4 5 6 7 8 9 10 11 apply blast+
    done
qed

theorem title_season_ascii_only_witness:
  "re_search title_season_rx (ustr_of ''a[B season 2]c'') =
     Some ([97], Match (ustr_of ''[B season 2]'') [Some [66], Some [50]], [99]) \<and>
   (\<exists>mid. ustr_of ''[B season 2]'' = LBR # mid @ [RBR]) \<and>
   LBR \<notin> set fw_example \<and>
   title_season_step fw_example empty_info = Inr (empty_info, fw_example) \<and>
   no_opener (ustr_of ''A '') \<and> clean_content (ustr_of ''1080p'') \<and>
   LBR \<notin> set (ustr_of ''1080p'') \<and> no_opener (ustr_of '' Show'') \<and>
   re_finditer bracket_rx (ustr_of ''A '' @ fw_block (ustr_of ''1080p'') @ ustr_of '' Show'') =
     [Match (fw_block (ustr_of ''1080p'')) [Some (ustr_of ''1080p'')]] \<and>
   fallback_title (ustr_of ''A '' @ fw_block (ustr_of ''1080p'') @ ustr_of '' Show'') =
     ustr_of ''A Show'' \<and>
   search_ic rule_res_g (ustr_of ''1080p'') =
     Inr (Some (Match (ustr_of ''1080p'') [Some (ustr_of ''1080p'')])) \<and>
   parse_filename search_ic grouped_rules (fw_block (ustr_of ''1080p'') @ ustr_of '' Show'') =
     Inr fw_res_result \<and>
   clean_content (ustr_of ''Title'') \<and>
   list_all (\<lambda>(k, f). no_claim search_ic grouped_rules (ustr_of ''Title'') k) tech_keys \<and>
   parse_filename search_ic grouped_rules (fw_block (ustr_of ''Title'') @ ustr_of '' Show'') =
     Inr (fw_res_result\<lparr>m_resolution := None\<rparr>)"
proof -
  let ?r = "ustr_of ''1080p''" and ?t = "ustr_of ''Title''" and ?p = "ustr_of '' Show''"
  have a: "re_search title_season_rx (ustr_of ''a[B season 2]c'') =
     Some ([97], Match (ustr_of ''[B season 2]'') [Some [66], Some [50]], [99])"
    by (simp add: rx_defs)
  have b: "LBR \<notin> set fw_example" by (simp add: rx_defs fw_example_def)
  have h: "no_opener (ustr_of ''A '')" "clean_content ?r" "LBR \<notin> set ?r" "no_opener ?p"
      "clean_content ?t" "LBR \<notin> set ?t"
    by (simp_all add: no_opener_def clean_content_def rx_defs)
  have k: "tech_keys = [] @ (''resolution'', FResolution) #
         [(''source'', FRemarks), (''video_codec'', FVideoCodec),
          (''audio_codec'', FAudioCodec), (''subtitle'', FSubtitle), (''group'', FGroup)]"
      "list_all (\<lambda>(k, f). no_claim search_ic grouped_rules ?r k) []"
      "grouped_rules ''resolution'' = Some rule_res_g" "rule_res_g \<noteq> []"
      "search_ic rule_res_g ?r = Inr (Some (Match ?r [Some ?r]))"
      "match_value (Match ?r [Some ?r]) = Inr ?r"
      "search_ic (get_rule grouped_rules ''season_episode'') ?p = Inr None"
      "search_ic (get_rule grouped_rules ''episode'') ?p = Inr None"
    by (simp_all add: pf_defs rx_defs rule_defs)
  have u: "list_all (\<lambda>(k, f). no_claim search_ic grouped_rules ?t k) tech_keys"
      "search_ic (get_rule grouped_rules ''season_episode'') (fw_block ?t @ ?p) = Inr None"
      "search_ic (get_rule grouped_rules ''episode'') (fw_block ?t @ ?p) = Inr None"
    by (simp_all add: pf_defs rx_defs rule_defs no_claim_def fw_block_def nd_zeros_def)
  have e: "plain_title (ustr_of ''A '' @ ?p) = ustr_of ''A Show''"
      "plain_title ?p = ustr_of ''Show''"
      "re_finditer bracket_rx ?p = []"
    by (simp_all add: plain_title_def pf_defs rx_defs)
  have c: "parse_filename search_ic grouped_rules (fw_block ?r @ ?p) = Inr fw_res_result"
    by (simp add: pf_defs rx_defs rule_defs fw_block_def fw_res_result_def nd_zeros_def)
  note T1 = title_season_ascii_only [where s = "ustr_of ''a[B season 2]c''" and pre = "[97]"
      and m = "Match (ustr_of ''[B season 2]'') [Some [66], Some [50]]" and post = "[99]"]
  note T2 = title_season_ascii_only [where s = fw_example and i = empty_info]
  note T3 = title_season_ascii_only [where ?pre2.0 = "ustr_of ''A ''" and content = ?r
      and ?post2.0 = ?p and kpre = "[]" and key = "''resolution''" and field = FResolution
      and krest = "[(''source'', FRemarks), (''video_codec'', FVideoCodec),
          (''audio_codec'', FAudioCodec), (''subtitle'', FSubtitle), (''group'', FGroup)]"
      and rs = search_ic and P = grouped_rules and pat = rule_res_g
      and km = "Match ?r [Some ?r]" and x = ?r]
  note T4 = title_season_ascii_only [where content = ?t and ?post2.0 = ?p
      and rs = search_ic and P = grouped_rules]
  from T1 a have 1: "\<exists>mid. ustr_of ''[B season 2]'' = LBR # mid @ [RBR]" by auto
  from T2 b have 2: "title_season_step fw_example empty_info = Inr (empty_info, fw_example)"
    by blast
  from T3 h have 3:
    "re_finditer bracket_rx (ustr_of ''A '' @ fw_block ?r @ ?p) =
       Match (fw_block ?r) [Some ?r] # re_finditer bracket_rx ?p"
    "fallback_title (ustr_of ''A '' @ fw_block ?r @ ?p) = plain_title (ustr_of ''A '' @ ?p)"
    by blast+
  from T4 h u have 4: "parse_filename search_ic grouped_rules (fw_block ?t @ ?p) =
        Inr \<lparr>m_group = None, m_title = Some (plain_title ?p), m_season = Some [49],
             m_episode = None, m_resolution = None, m_video_codec = None,
             m_audio_codec = None, m_subtitle = None, m_remarks = None,
             bangumi_eps = None\<rparr>" by blast
  from T3 h k have 5: "\<exists>mi. parse_filename search_ic grouped_rules (fw_block ?r @ ?p) = Inr mi \<and>
           m_title mi = Some (plain_title ?p) \<and> m_season mi = Some [49] \<and>
           m_episode mi = None \<and>
           (if ''resolution'' = ''source'' then m_remarks mi = join_remarks [?r]
            else result_field mi FResolution = Some ?r \<and> m_remarks mi = None)" by blast
  from 4 e have 6: "parse_filename search_ic grouped_rules (fw_block ?t @ ?p) =
     Inr (fw_res_result\<lparr>m_resolution := None\<rparr>)" by (simp add: fw_res_result_def)
  from a 1 b 2 h 3 e k(5) c u(1) 6 show ?thesis by simp
qed

end
